theory Spec2Isabelle
  imports Main "HOL-Library.Word"
begin

unbundle bit_operations_syntax

section \<open>The FAT32 driver of thor-os (kernel/src/fat32.cpp)\<close>

text \<open>
  The driver works on packed, little-endian structures that overlay raw sector bytes
  (\<open>fat_bs_t\<close>, \<open>fat_is_t\<close>, \<open>cluster_entry\<close>, \<open>long_entry\<close>, all
  \<open>__attribute__((packed))\<close>, sizes fixed by \<open>static_assert\<close>).  The model keeps the
  bytes and reads or writes a field at the offset the packed declaration gives it, so that a
  \<open>reinterpret_cast\<close> between \<open>cluster_entry\<close> and \<open>long_entry\<close> is two views of the same
  32 bytes.  Machine integers are words of their width; a null pointer dereference and an
  index outside a local array are values of type \<open>fault\<close>.
\<close>

subsection \<open>Machine integers and packed fields\<close>

type_synonym u8 = "8 word"
type_synonym u16 = "16 word"
type_synonym u32 = "32 word"
type_synonym u64 = "64 word"

type_synonym sector = "u8 list"

datatype fault = NullDereference | OutOfBounds

definition get_u8 :: "u8 list \<Rightarrow> nat \<Rightarrow> u8" where
  "get_u8 b off = b ! off"

definition get_u16 :: "u8 list \<Rightarrow> nat \<Rightarrow> u16" where
  "get_u16 b off = ucast (b ! off) OR push_bit 8 (ucast (b ! (off + 1)))"

definition u32_le :: "u8 \<Rightarrow> u8 \<Rightarrow> u8 \<Rightarrow> u8 \<Rightarrow> u32" where
  "u32_le b0 b1 b2 b3 =
     ucast b0 OR push_bit 8 (ucast b1) OR push_bit 16 (ucast b2) OR push_bit 24 (ucast b3)"

definition get_u32 :: "u8 list \<Rightarrow> nat \<Rightarrow> u32" where
  "get_u32 b off = u32_le (b ! off) (b ! (off + 1)) (b ! (off + 2)) (b ! (off + 3))"

definition set_u8 :: "u8 list \<Rightarrow> nat \<Rightarrow> u8 \<Rightarrow> u8 list" where
  "set_u8 b off v = b[off := v]"

definition set_u16 :: "u8 list \<Rightarrow> nat \<Rightarrow> u16 \<Rightarrow> u8 list" where
  "set_u16 b off v = b[off := ucast v, off + 1 := ucast (drop_bit 8 v)]"

definition set_u32 :: "u8 list \<Rightarrow> nat \<Rightarrow> u32 \<Rightarrow> u8 list" where
  "set_u32 b off v =
     b[off := ucast v, off + 1 := ucast (drop_bit 8 v),
       off + 2 := ucast (drop_bit 16 v), off + 3 := ucast (drop_bit 24 v)]"

text \<open>
  Plain \<open>char\<close> is signed or unsigned as the compiler decides (signed by default on x86-64,
  unsigned under \<open>-funsigned-char\<close>); the build flags are not part of the sources, so the
  signedness is the parameter \<open>sg\<close> of every function whose result depends on it.
  \<open>char_to_int\<close> is the integral promotion of a \<open>char\<close>, \<open>char_to_u16\<close> is
  \<open>static_cast<uint16_t>\<close> of a \<open>char\<close>.
\<close>

definition char_to_int :: "bool \<Rightarrow> u8 \<Rightarrow> int" where
  "char_to_int sg c = (if sg then sint c else uint c)"

definition char_to_u16 :: "bool \<Rightarrow> u8 \<Rightarrow> u16" where
  "char_to_u16 sg c = word_of_int (char_to_int sg c)"

subsection \<open>The fields of the boot sector and of the information sector\<close>

definition sectors_per_cluster :: "sector \<Rightarrow> u8" where
  "sectors_per_cluster bs = get_u8 bs 13"

definition reserved_sectors :: "sector \<Rightarrow> u16" where
  "reserved_sectors bs = get_u16 bs 14"

definition number_of_fat :: "sector \<Rightarrow> u8" where
  "number_of_fat bs = get_u8 bs 16"

definition sectors_per_fat :: "sector \<Rightarrow> u16" where
  "sectors_per_fat bs = get_u16 bs 22"

definition sectors_per_fat_long :: "sector \<Rightarrow> u32" where
  "sectors_per_fat_long bs = get_u32 bs 36"

definition root_directory_cluster_start :: "sector \<Rightarrow> u32" where
  "root_directory_cluster_start bs = get_u32 bs 44"

definition fs_information_sector :: "sector \<Rightarrow> u16" where
  "fs_information_sector bs = get_u16 bs 48"

definition free_clusters :: "sector \<Rightarrow> u32" where
  "free_clusters fis = get_u32 fis 488"

subsection \<open>The block device\<close>

text \<open>
  Modelled from the spec: \<open>read_sectors\<close> and \<open>write_sectors\<close> (section 6.2) are the
  block-device collaborators, declared outside the driver.  A device maps the number of a sector
  (the value of the 64-bit LBA) to the 512 bytes of the sector, or to \<open>None\<close> for a sector
  whose transfer fails; a read or write of several sectors succeeds when each of them does.
  \<open>disks\<close> gives the device behind a disk identifier.
\<close>

type_synonym blockdev = "nat \<Rightarrow> sector option"
type_synonym disks = "u64 \<Rightarrow> blockdev"

record dd =
  dd_uuid :: u64

record partition_descriptor =
  pd_uuid :: u64
  pd_start :: u64

definition sector_bytes :: "sector \<Rightarrow> sector" where
  "sector_bytes s = take 512 s @ replicate (512 - length s) 0"

fun read_dev :: "blockdev \<Rightarrow> u64 \<Rightarrow> nat \<Rightarrow> u8 list option" where
  "read_dev d lba 0 = Some []"
| "read_dev d lba (Suc n) =
     (case d (unat lba) of
        None \<Rightarrow> None
      | Some s \<Rightarrow>
          (case read_dev d (lba + 1) n of
             None \<Rightarrow> None
           | Some r \<Rightarrow> Some (sector_bytes s @ r)))"

fun write_dev :: "blockdev \<Rightarrow> u64 \<Rightarrow> nat \<Rightarrow> u8 list \<Rightarrow> bool \<times> blockdev" where
  "write_dev d lba 0 b = (True, d)"
| "write_dev d lba (Suc n) b =
     (case d (unat lba) of
        None \<Rightarrow> (False, d)
      | Some s \<Rightarrow>
          write_dev (d(unat lba := Some (sector_bytes (take 512 b)))) (lba + 1) n (drop 512 b))"

definition read_sectors :: "disks \<Rightarrow> dd \<Rightarrow> u64 \<Rightarrow> nat \<Rightarrow> u8 list option" where
  "read_sectors w disk lba n = read_dev (w (dd_uuid disk)) lba n"

definition write_sectors :: "disks \<Rightarrow> dd \<Rightarrow> u64 \<Rightarrow> nat \<Rightarrow> u8 list \<Rightarrow> bool \<times> disks" where
  "write_sectors w disk lba n b =
     (let r = write_dev (w (dd_uuid disk)) lba n b
      in (fst r, w(dd_uuid disk := snd r)))"

subsection \<open>The metadata cache\<close>

text \<open>
  The globals \<open>cached_disk\<close>, \<open>cached_partition\<close>, \<open>partition_start\<close>, \<open>fat_bs\<close> and
  \<open>fat_is\<close>; a null pointer is \<open>None\<close>.
\<close>

record fat32_state =
  cached_disk :: u64
  cached_partition :: u64
  partition_start :: u64
  fat_bs :: "sector option"
  fat_is :: "sector option"

definition initial_state :: fat32_state where
  "initial_state =
     \<lparr>cached_disk = - 1, cached_partition = - 1, partition_start = 0,
      fat_bs = None, fat_is = None\<rparr>"

definition cache_bs :: "fat32_state \<Rightarrow> disks \<Rightarrow> dd \<Rightarrow> partition_descriptor \<Rightarrow> fat32_state" where
  "cache_bs st w disk part =
     (case read_sectors w disk (pd_start part) 1 of
        Some s \<Rightarrow> st\<lparr>fat_bs := Some s\<rparr>
      | None \<Rightarrow> st\<lparr>fat_bs := None\<rparr>)"

definition cache_is ::
  "fat32_state \<Rightarrow> disks \<Rightarrow> dd \<Rightarrow> partition_descriptor \<Rightarrow> fault + fat32_state" where
  "cache_is st w disk part =
     (case fat_bs st of
        None \<Rightarrow> Inl NullDereference
      | Some bs \<Rightarrow>
          (case read_sectors w disk (pd_start part + ucast (fs_information_sector bs)) 1 of
             Some s \<Rightarrow> Inr (st\<lparr>fat_is := Some s\<rparr>)
           | None \<Rightarrow> Inr (st\<lparr>fat_is := None\<rparr>)))"

text \<open>The test \<open>cached_disk != disk.uuid || cached_partition != partition.uuid\<close>.\<close>

definition other_pair :: "fat32_state \<Rightarrow> dd \<Rightarrow> partition_descriptor \<Rightarrow> bool" where
  "other_pair st disk part = (cached_disk st \<noteq> dd_uuid disk \<or> cached_partition st \<noteq> pd_uuid part)"

definition cache_disk_partition ::
  "fat32_state \<Rightarrow> disks \<Rightarrow> dd \<Rightarrow> partition_descriptor \<Rightarrow> fault + (bool \<times> fat32_state)" where
  "cache_disk_partition st w disk part =
     (if other_pair st disk part then
        (case cache_is (cache_bs (st\<lparr>partition_start := pd_start part\<rparr>) w disk part)
                w disk part of
           Inl f \<Rightarrow> Inl f
         | Inr st' \<Rightarrow>
             (let st'' = st'\<lparr>cached_disk := dd_uuid disk, cached_partition := pd_uuid part\<rparr>
              in Inr (fat_bs st'' \<noteq> None \<and> fat_is st'' \<noteq> None, st'')))
      else Inr (fat_bs st \<noteq> None \<and> fat_is st \<noteq> None, st))"

definition write_is ::
  "fat32_state \<Rightarrow> disks \<Rightarrow> dd \<Rightarrow> partition_descriptor \<Rightarrow> fault + (bool \<times> disks)" where
  "write_is st w disk part =
     (case fat_bs st of
        None \<Rightarrow> Inl NullDereference
      | Some bs \<Rightarrow>
          (case fat_is st of
             None \<Rightarrow> Inl NullDereference
           | Some fis \<Rightarrow>
               Inr (write_sectors w disk (pd_start part + ucast (fs_information_sector bs)) 1 fis)))"

subsection \<open>FAT table access\<close>

definition fat_begin :: "fat32_state \<Rightarrow> sector \<Rightarrow> u64" where
  "fat_begin st bs = partition_start st + ucast (reserved_sectors bs)"

text \<open>
  \<open>number_of_fat * sectors_per_fat_long\<close> is a product of \<open>unsigned int\<close>;
  \<open>(cluster - 2) * sectors_per_cluster\<close> is a product of \<open>uint64_t\<close>.
\<close>

definition cluster_lba :: "fat32_state \<Rightarrow> u64 \<Rightarrow> fault + u64" where
  "cluster_lba st cluster =
     (case fat_bs st of
        None \<Rightarrow> Inl NullDereference
      | Some bs \<Rightarrow>
          (let cluster_begin =
                 fat_begin st bs + ucast ((ucast (number_of_fat bs) :: u32) * sectors_per_fat_long bs)
           in Inr (cluster_begin + (cluster - 2) * ucast (sectors_per_cluster bs))))"

text \<open>
  \<open>fat_table\<close> is a heap array of \<open>512 / sizeof(uint32_t) = 128\<close> entries of type
  \<open>uint32_t\<close>, filled by the read of one sector: entry \<open>k\<close> is the four bytes at \<open>4 * k\<close>.
  It is indexed with \<open>cluster % 512\<close>: an index of 128 or more is outside the array.
\<close>

definition read_fat_value :: "fat32_state \<Rightarrow> disks \<Rightarrow> dd \<Rightarrow> u32 \<Rightarrow> fault + u32" where
  "read_fat_value st w disk cluster =
     (case fat_bs st of
        None \<Rightarrow> Inl NullDereference
      | Some bs \<Rightarrow>
          (let fat_sector = fat_begin st bs + (ucast cluster * 4) div 512 in
           case read_sectors w disk fat_sector 1 of
             Some fat_table \<Rightarrow>
               (let entry_offset = unat cluster mod 512 in
                if entry_offset < 128
                then Inr (get_u32 fat_table (4 * entry_offset) AND 0x0FFFFFFF)
                else Inl OutOfBounds)
           | None \<Rightarrow> Inr 0))"

definition write_fat_value ::
  "fat32_state \<Rightarrow> disks \<Rightarrow> dd \<Rightarrow> u32 \<Rightarrow> u32 \<Rightarrow> fault + (bool \<times> disks)" where
  "write_fat_value st w disk cluster v =
     (case fat_bs st of
        None \<Rightarrow> Inl NullDereference
      | Some bs \<Rightarrow>
          (let fat_sector = fat_begin st bs + (ucast cluster * 4) div 512 in
           case read_sectors w disk fat_sector 1 of
             None \<Rightarrow> Inr (False, w)
           | Some fat_table \<Rightarrow>
               (let entry_offset = unat cluster mod 512 in
                if entry_offset < 128
                then Inr (write_sectors w disk fat_sector 1 (set_u32 fat_table (4 * entry_offset) v))
                else Inl OutOfBounds)))"

definition next_cluster :: "fat32_state \<Rightarrow> disks \<Rightarrow> dd \<Rightarrow> u32 \<Rightarrow> fault + u32" where
  "next_cluster st w disk cluster =
     (case read_fat_value st w disk cluster of
        Inl f \<Rightarrow> Inl f
      | Inr fat_value \<Rightarrow> if fat_value \<ge> 0x0FFFFFF8 then Inr 0 else Inr fat_value)"

definition fat_size :: "sector \<Rightarrow> u32" where
  "fat_size bs = sectors_per_fat_long bs + ucast (sectors_per_fat bs)"

text \<open>
  The inner loop of \<open>find_free_cluster\<close> over the entries of the sector read for \<open>j\<close>: the
  list holds the bytes of the entries from index \<open>i\<close> on, four bytes an entry;
  \<open>Some c\<close> is \<open>return i + j * entries_per_sector\<close> (converted to \<open>uint32_t\<close>), \<open>None\<close> is
  the loop running to its end.
\<close>

fun scan_fat_table :: "u8 list \<Rightarrow> nat \<Rightarrow> nat \<Rightarrow> u32 option" where
  "scan_fat_table (b0 # b1 # b2 # b3 # rest) j i =
     (if j = 0 \<and> i < 2 then scan_fat_table rest j (i + 1)
      else if u32_le b0 b1 b2 b3 AND 0x0FFFFFFF = 0 then Some (word_of_nat (i + j * 128))
      else scan_fat_table rest j (i + 1))"
| "scan_fat_table rest j i = None"

text \<open>
  The outer loop: sector \<open>j\<close> of the scan is read at
  \<open>fat_begin + j * fat_bs->sectors_per_cluster\<close>.
\<close>

function find_free_cluster_loop ::
  "disks \<Rightarrow> dd \<Rightarrow> u64 \<Rightarrow> u8 \<Rightarrow> nat \<Rightarrow> nat \<Rightarrow> u32" where
  "find_free_cluster_loop w disk fb spc fsz j =
     (if j < fsz then
        (case read_sectors w disk (fb + word_of_nat j * ucast spc) 1 of
           None \<Rightarrow> 0
         | Some fat_table \<Rightarrow>
             (case scan_fat_table fat_table j 0 of
                Some c \<Rightarrow> c
              | None \<Rightarrow> find_free_cluster_loop w disk fb spc fsz (j + 1)))
      else 0)"
  by pat_completeness auto
termination
  by (relation "measure (\<lambda>(w, disk, fb, spc, fsz, j). fsz - j)") auto

definition find_free_cluster :: "fat32_state \<Rightarrow> disks \<Rightarrow> dd \<Rightarrow> fault + u32" where
  "find_free_cluster st w disk =
     (case fat_bs st of
        None \<Rightarrow> Inl NullDereference
      | Some bs \<Rightarrow>
          Inr (find_free_cluster_loop w disk (fat_begin st bs) (sectors_per_cluster bs)
                 (unat (fat_size bs)) 0))"

subsection \<open>Directory entries\<close>

text \<open>
  A directory slot is 32 bytes.  Seen as \<open>cluster_entry\<close>: \<open>name\<close> at 0..10, \<open>attrib\<close> at 11,
  \<open>reserved\<close> at 12, \<open>creation_time_seconds\<close> at 13, \<open>creation_time\<close> at 14,
  \<open>creation_date\<close> at 16, \<open>accessed_date\<close> at 18, \<open>cluster_high\<close> at 20,
  \<open>modification_time\<close> at 22, \<open>modification_date\<close> at 24, \<open>cluster_low\<close> at 26,
  \<open>file_size\<close> at 28.  Seen as \<open>long_entry\<close>: \<open>sequence_number\<close> at 0, \<open>name_first[5]\<close>
  at 1, \<open>attrib\<close> at 11, \<open>reserved\<close> at 12, \<open>alias_checksum\<close> at 13, \<open>name_second[6]\<close>
  at 14, \<open>starting_cluster\<close> at 26, \<open>name_third[2]\<close> at 28.
\<close>

type_synonym slot = "u8 list"

definition ce_name :: "slot \<Rightarrow> nat \<Rightarrow> u8" where
  "ce_name e s = get_u8 e s"

definition ce_attrib :: "slot \<Rightarrow> u8" where
  "ce_attrib e = get_u8 e 11"

definition ce_cluster_high :: "slot \<Rightarrow> u16" where
  "ce_cluster_high e = get_u16 e 20"

definition ce_cluster_low :: "slot \<Rightarrow> u16" where
  "ce_cluster_low e = get_u16 e 26"

definition ce_file_size :: "slot \<Rightarrow> u32" where
  "ce_file_size e = get_u32 e 28"

definition le_sequence_number :: "slot \<Rightarrow> u8" where
  "le_sequence_number e = get_u8 e 0"

definition le_name_first :: "slot \<Rightarrow> nat \<Rightarrow> u16" where
  "le_name_first e j = get_u16 e (1 + 2 * j)"

definition le_attrib :: "slot \<Rightarrow> u8" where
  "le_attrib e = get_u8 e 11"

definition le_reserved :: "slot \<Rightarrow> u8" where
  "le_reserved e = get_u8 e 12"

definition le_alias_checksum :: "slot \<Rightarrow> u8" where
  "le_alias_checksum e = get_u8 e 13"

definition le_name_second :: "slot \<Rightarrow> nat \<Rightarrow> u16" where
  "le_name_second e j = get_u16 e (14 + 2 * j)"

definition le_starting_cluster :: "slot \<Rightarrow> u16" where
  "le_starting_cluster e = get_u16 e 26"

definition le_name_third :: "slot \<Rightarrow> nat \<Rightarrow> u16" where
  "le_name_third e j = get_u16 e (28 + 2 * j)"

text \<open>
  The buffer \<open>unique_heap_array<cluster_entry>(n)\<close> filled by a sector read, and the bytes
  written back from it.
\<close>

fun entries_of :: "nat \<Rightarrow> u8 list \<Rightarrow> slot list" where
  "entries_of 0 b = []"
| "entries_of (Suc n) b = take 32 b # entries_of n (drop 32 b)"

definition bytes_of :: "slot list \<Rightarrow> u8 list" where
  "bytes_of es = concat es"

text \<open>The comparisons of \<open>entry.name[0]\<close>, a \<open>char\<close>, with the \<open>int\<close> literals.\<close>

definition entry_unused :: "bool \<Rightarrow> slot \<Rightarrow> bool" where
  "entry_unused sg e = (char_to_int sg (ce_name e 0) = 0xE5)"

definition entry_used :: "bool \<Rightarrow> slot \<Rightarrow> bool" where
  "entry_used sg e = (char_to_int sg (ce_name e 0) \<noteq> 0xE5)"

definition end_of_directory :: "bool \<Rightarrow> slot \<Rightarrow> bool" where
  "end_of_directory sg e = (char_to_int sg (ce_name e 0) = 0x0)"

definition is_long_name :: "slot \<Rightarrow> bool" where
  "is_long_name e = (ce_attrib e = 0x0F)"

subsection \<open>Listing a directory\<close>

text \<open>
  \<open>disks::file\<close> as the driver fills it: the name is a byte string, \<open>location\<close> is read
  into \<open>uint32_t\<close> variables by every caller.
\<close>

record disk_file =
  file_name :: "u8 list"
  hidden :: bool
  system :: bool
  directory :: bool
  size_bytes :: nat
  location :: u32

text \<open>
  The locals of \<open>files\<close> that live across directory entries: the result vector,
  \<open>long_name\<close>, \<open>long_name_buffer\<close> (256 bytes, not initialised) and \<open>i\<close>.
\<close>

record scan =
  files :: "disk_file list"
  long_name :: bool
  long_name_buffer :: "u8 list"
  lfn_i :: nat

text \<open>
  One of the three loops over \<open>name_first\<close>, \<open>name_second\<close>, \<open>name_third\<close>; the state is
  \<open>(end, l, long_name_buffer)\<close>.  A write at \<open>l \<ge> 256\<close> is outside the buffer.
\<close>

fun copy_units :: "u16 list \<Rightarrow> bool \<times> nat \<times> u8 list \<Rightarrow> fault + (bool \<times> nat \<times> u8 list)" where
  "copy_units [] (stop, l, b) = Inr (stop, l, b)"
| "copy_units (u # us) (stop, l, b) =
     (if stop then Inr (stop, l, b)
      else if u = 0x0 \<or> u = 0xFF then copy_units us (True, l, b)
      else if l < 256 then copy_units us (False, l + 1, b[l := ucast u])
      else Inl OutOfBounds)"

text \<open>
  \<open>size_t l = ((l_entry.sequence_number & ~0x40) - 1) * 13\<close>: the subtraction and the product
  are \<open>int\<close>, converted to the 64-bit \<open>size_t\<close>.
\<close>

definition lfn_start :: "slot \<Rightarrow> nat" where
  "lfn_start e = unat ((ucast (le_sequence_number e AND NOT 0x40) - 1) * 13 :: u64)"

definition decode_long :: "slot \<Rightarrow> scan \<Rightarrow> fault + scan" where
  "decode_long e sc =
     (case copy_units (map (le_name_first e) [0..<5]) (False, lfn_start e, long_name_buffer sc) of
        Inl f \<Rightarrow> Inl f
      | Inr s1 \<Rightarrow>
     (case copy_units (map (le_name_second e) [0..<6]) s1 of
        Inl f \<Rightarrow> Inl f
      | Inr s2 \<Rightarrow>
     (case copy_units (map (le_name_third e) [0..<2]) s2 of
        Inl f \<Rightarrow> Inl f
      | Inr s3 \<Rightarrow>
          (let l = fst (snd s3); b = snd (snd s3) in
           Inr (sc\<lparr>long_name := True, long_name_buffer := b,
                   lfn_i := (if l > lfn_i sc then l else lfn_i sc)\<rparr>)))))"

definition short_name :: "slot \<Rightarrow> u8 list" where
  "short_name e = takeWhile (\<lambda>c. c \<noteq> 0x20) (map (ce_name e) [0..<11])"

definition make_file :: "u8 \<Rightarrow> slot \<Rightarrow> u8 list \<Rightarrow> disk_file" where
  "make_file spc e nm =
     \<lparr>file_name = nm,
      hidden = (ce_attrib e AND 0x1 \<noteq> 0),
      system = (ce_attrib e AND 0x2 \<noteq> 0),
      directory = (ce_attrib e AND 0x10 \<noteq> 0),
      size_bytes = (if ce_attrib e AND 0x10 \<noteq> 0 then unat spc * 512 else unat (ce_file_size e)),
      location = ucast (ce_cluster_low e) + push_bit 16 (ucast (ce_cluster_high e))\<rparr>"

text \<open>
  The entry that is not a long-name entry: with \<open>long_name\<close> set the name is
  \<open>long_name_buffer[0..i)\<close>, and reading at 256 or beyond is outside the buffer.
\<close>

definition short_entry :: "u8 \<Rightarrow> slot \<Rightarrow> scan \<Rightarrow> fault + scan" where
  "short_entry spc e sc =
     (if long_name sc then
        (if lfn_i sc \<le> 256 then
           Inr (sc\<lparr>files := files sc @ [make_file spc e (take (lfn_i sc) (long_name_buffer sc))],
                   long_name := False, lfn_i := 0\<rparr>)
         else Inl OutOfBounds)
      else Inr (sc\<lparr>files := files sc @ [make_file spc e (short_name e)]\<rparr>))"

text \<open>
  \<open>for(auto& entry : cluster)\<close>: the flag of the result is \<open>end_reached\<close>.
\<close>

fun scan_entries :: "bool \<Rightarrow> u8 \<Rightarrow> slot list \<Rightarrow> scan \<Rightarrow> fault + (bool \<times> scan)" where
  "scan_entries sg spc [] sc = Inr (False, sc)"
| "scan_entries sg spc (entry # rest) sc =
     (if end_of_directory sg entry then Inr (True, sc)
      else if entry_used sg entry then
        (if is_long_name entry then
           (case decode_long entry sc of
              Inl f \<Rightarrow> Inl f
            | Inr sc' \<Rightarrow> scan_entries sg spc rest sc')
         else
           (case short_entry spc entry sc of
              Inl f \<Rightarrow> Inl f
            | Inr sc' \<Rightarrow> scan_entries sg spc rest sc'))
      else scan_entries sg spc rest sc)"

text \<open>
  The memory a function finds in a fresh local array or heap array is not set by the driver:
  \<open>stack_garbage\<close> and \<open>heap_garbage\<close> give the bytes found there.
\<close>

record env =
  char_signed :: bool
  stack_garbage :: "nat \<Rightarrow> u8"
  heap_garbage :: "nat \<Rightarrow> u8"

text \<open>
  \<open>while(!end_reached)\<close> over the cluster chain.  A chain with a cycle and no end marker
  keeps the loop running: the result is \<open>None\<close> then.
\<close>

partial_function (option) files_loop ::
  "bool \<Rightarrow> fat32_state \<Rightarrow> disks \<Rightarrow> dd \<Rightarrow> u32 \<Rightarrow> scan \<Rightarrow> (fault + disk_file list) option" where
  "files_loop sg st w disk cluster_number sc =
     (case fat_bs st of
        None \<Rightarrow> Some (Inl NullDereference)
      | Some bs \<Rightarrow>
     (case cluster_lba st (ucast cluster_number) of
        Inl f \<Rightarrow> Some (Inl f)
      | Inr lba \<Rightarrow>
     (case read_sectors w disk lba (unat (sectors_per_cluster bs)) of
        None \<Rightarrow> Some (Inr (files sc))
      | Some b \<Rightarrow>
     (case scan_entries sg (sectors_per_cluster bs)
             (entries_of (16 * unat (sectors_per_cluster bs)) b) sc of
        Inl f \<Rightarrow> Some (Inl f)
      | Inr r \<Rightarrow>
          let end_reached = fst r; sc' = snd r in
          if end_reached then Some (Inr (files sc'))
          else
            (case next_cluster st w disk cluster_number of
               Inl f \<Rightarrow> Some (Inl f)
             | Inr c \<Rightarrow>
                 if c = 0 then Some (Inr (files sc'))
                 else if c = 0x0FFFFFF7 then Some (Inr (files sc'))
                 else files_loop sg st w disk c sc')))))"

declare files_loop.simps [code]

definition files_of_cluster ::
  "env \<Rightarrow> fat32_state \<Rightarrow> disks \<Rightarrow> dd \<Rightarrow> u32 \<Rightarrow> (fault + disk_file list) option" where
  "files_of_cluster ev st w disk cluster_number =
     files_loop (char_signed ev) st w disk cluster_number
       \<lparr>files = [], long_name = False,
        long_name_buffer = map (stack_garbage ev) [0..<256], lfn_i = 0\<rparr>"

text \<open>
  \<open>find_cluster_number\<close>: the loop over the segments of the path, \<open>last\<close> being
  \<open>i == path.size() - 1\<close>.
\<close>

fun find_cluster_loop ::
  "env \<Rightarrow> fat32_state \<Rightarrow> disks \<Rightarrow> dd \<Rightarrow> u32 \<Rightarrow> u8 list list \<Rightarrow> (fault + (bool \<times> u32)) option" where
  "find_cluster_loop ev st w disk cluster_number [] = Some (Inr (False, 0))"
| "find_cluster_loop ev st w disk cluster_number (p # ps) =
     (case files_of_cluster ev st w disk cluster_number of
        None \<Rightarrow> None
      | Some (Inl f) \<Rightarrow> Some (Inl f)
      | Some (Inr entries) \<Rightarrow>
          (case find (\<lambda>f. (ps = [] \<or> directory f) \<and> file_name f = p) entries of
             None \<Rightarrow> Some (Inr (False, 0))
           | Some f \<Rightarrow>
               if ps = [] then Some (Inr (True, location f))
               else find_cluster_loop ev st w disk (location f) ps))"

definition find_cluster_number ::
  "env \<Rightarrow> fat32_state \<Rightarrow> disks \<Rightarrow> dd \<Rightarrow> u8 list list \<Rightarrow> (fault + (bool \<times> u32)) option" where
  "find_cluster_number ev st w disk path =
     (case fat_bs st of
        None \<Rightarrow> Some (Inl NullDereference)
      | Some bs \<Rightarrow>
          if path = [] then Some (Inr (True, root_directory_cluster_start bs))
          else find_cluster_loop ev st w disk (root_directory_cluster_start bs) path)"

definition files_of_path ::
  "env \<Rightarrow> fat32_state \<Rightarrow> disks \<Rightarrow> dd \<Rightarrow> u8 list list \<Rightarrow> (fault + disk_file list) option" where
  "files_of_path ev st w disk path =
     (case find_cluster_number ev st w disk path of
        None \<Rightarrow> None
      | Some (Inl f) \<Rightarrow> Some (Inl f)
      | Some (Inr r) \<Rightarrow>
          let found = fst r; c = snd r in
          if \<not> found then Some (Inr []) else files_of_cluster ev st w disk c)"

subsection \<open>Allocating directory entries\<close>

text \<open>\<open>(name.size() - 1) / 11 + 2\<close> on the 64-bit \<open>size_t\<close>.\<close>

definition number_of_entries :: "u8 list \<Rightarrow> nat" where
  "number_of_entries name = unat ((word_of_nat (length name) - 1 :: u64) div 11 + 2)"

text \<open>The first loop of \<open>find_free_entry\<close>: the index of the first end-of-directory marker.\<close>

fun first_end :: "bool \<Rightarrow> slot list \<Rightarrow> nat \<Rightarrow> nat option" where
  "first_end sg [] i = None"
| "first_end sg (entry # rest) i =
     (if end_of_directory sg entry then Some i else first_end sg rest (i + 1))"

text \<open>
  The second loop: the result is \<open>(sequence_size, sequence_start, sequence_end)\<close> when the
  loop is left.
\<close>

fun free_sequence :: "bool \<Rightarrow> nat \<Rightarrow> slot list \<Rightarrow> nat \<Rightarrow> nat \<Rightarrow> nat \<times> nat \<times> nat" where
  "free_sequence sg entries [] i sequence_size = (sequence_size, 0, 0)"
| "free_sequence sg entries (entry # rest) i sequence_size =
     (if end_of_directory sg entry \<or> entry_unused sg entry then
        (if sequence_size + 1 = entries then (sequence_size + 1, i - sequence_size, i)
         else free_sequence sg entries rest (i + 1) (sequence_size + 1))
      else free_sequence sg entries rest (i + 1) 0)"

text \<open>
  The third loop, from \<open>directory_cluster.size() - 1\<close> downwards; \<open>new_end\<close> is an
  \<open>int64_t\<close> that starts at \<open>-1\<close>.
\<close>

function new_end_loop :: "bool \<Rightarrow> slot list \<Rightarrow> nat \<Rightarrow> nat \<Rightarrow> int \<Rightarrow> int" where
  "new_end_loop sg directory_cluster sequence_end i new_end =
     (if i > 0 then
        (if i \<le> sequence_end then new_end
         else if end_of_directory sg (directory_cluster ! i) \<or> entry_unused sg (directory_cluster ! i)
         then new_end_loop sg directory_cluster sequence_end (i - 1) (int i)
         else new_end)
      else new_end)"
  by pat_completeness auto
termination
  by (relation "measure (\<lambda>(sg, d, e, i, n). i)") auto

text \<open>
  \<open>find_free_entry\<close> returns the buffer as it leaves it and the index of the slot the returned
  pointer points to; \<open>None\<close> is \<open>nullptr\<close>.
\<close>

definition find_free_entry :: "bool \<Rightarrow> slot list \<Rightarrow> nat \<Rightarrow> slot list \<times> nat option" where
  "find_free_entry sg directory_cluster entries =
     (case first_end sg directory_cluster 0 of
        None \<Rightarrow> (directory_cluster, None)
      | Some end_idx \<Rightarrow>
          (let r = free_sequence sg entries directory_cluster 0 0;
               sequence_size = fst r; sequence_start = fst (snd r); sequence_end = snd (snd r)
           in  if sequence_size \<noteq> entries then (directory_cluster, None)
               else if end_idx \<le> sequence_end then
                 (let new_end = new_end_loop sg directory_cluster sequence_end
                                  (length directory_cluster - 1) (- 1)
                  in if new_end < 0 then (directory_cluster, None)
                     else
                       (let d1 = directory_cluster[end_idx := set_u8 (directory_cluster ! end_idx) 0 0xE5];
                            d2 = d1[nat new_end := set_u8 (d1 ! nat new_end) 0 0x0]
                        in (d2, Some sequence_start)))
               else (directory_cluster, Some sequence_start)))"

subsection \<open>Initialising directory entries\<close>

text \<open>
  The checksum loop of \<open>init_entry\<close>: \<open>sum\<close> and \<open>v\<close> are \<open>char\<close>, the right-hand side
  \<open>((sum & 1) ? 0x80 : 0) + (sum >> 1) + v\<close> is computed on \<open>int\<close> after the integral
  promotions and converted back to \<open>char\<close>.
\<close>

definition checksum_step :: "bool \<Rightarrow> u8 \<Rightarrow> u8 \<Rightarrow> u8" where
  "checksum_step sg sum8 v =
     word_of_int ((if char_to_int sg sum8 AND 1 \<noteq> 0 then 0x80 else 0)
                  + drop_bit 1 (char_to_int sg sum8) + char_to_int sg v)"

function checksum_loop :: "bool \<Rightarrow> u8 list \<Rightarrow> nat \<Rightarrow> u8 \<Rightarrow> u8" where
  "checksum_loop sg name c sum8 =
     (if c < 11 then
        checksum_loop sg name (c + 1)
          (checksum_step sg sum8 (if c < length name then name ! c else 0x20))
      else sum8)"
  by pat_completeness auto
termination
  by (relation "measure (\<lambda>(sg, name, c, sum8). 11 - c)") auto

definition alias_checksum :: "bool \<Rightarrow> u8 list \<Rightarrow> u8" where
  "alias_checksum sg name = checksum_loop sg name 0 0"

text \<open>
  One of the loops that fill \<open>name_first\<close>, \<open>name_second\<close> or \<open>name_third\<close>: \<open>off\<close> is the
  byte offset of element \<open>j\<close> of the field, \<open>n\<close> the number of elements left, \<open>i\<close> the index
  into \<open>name\<close>.
\<close>

fun fill_units :: "bool \<Rightarrow> u8 list \<Rightarrow> nat \<Rightarrow> nat \<Rightarrow> slot \<Rightarrow> nat \<Rightarrow> slot \<times> nat" where
  "fill_units sg name off 0 e i = (e, i)"
| "fill_units sg name off (Suc n) e i =
     (if i < length name
      then fill_units sg name (off + 2) n (set_u16 e off (char_to_u16 sg (name ! i))) (i + 1)
      else fill_units sg name (off + 2) n (set_u16 e off 0xFF) i)"

text \<open>The body of \<open>while(sequence < sequences)\<close> on the slot \<open>entry_ptr\<close> points to.\<close>

definition write_long_entry :: "bool \<Rightarrow> u8 list \<Rightarrow> nat \<Rightarrow> nat \<Rightarrow> nat \<Rightarrow> slot \<Rightarrow> slot \<times> nat" where
  "write_long_entry sg name sequences sequence i e =
     (let e1 = set_u8 e 0 (if sequence = sequences - 1 then word_of_nat (sequence + 1) OR 0x40
                           else word_of_nat (sequence + 1));
          e2 = set_u8 e1 11 0x0F;
          e3 = set_u8 e2 12 0x0;
          e4 = set_u16 e3 26 0x0;
          e5 = set_u8 e4 13 (alias_checksum sg name);
          r1 = fill_units sg name 1 5 e5 i;
          r2 = fill_units sg name 14 6 (fst r1) (snd r1)
      in fill_units sg name 28 2 (fst r2) (snd r2))"

function lfn_loop ::
  "bool \<Rightarrow> u8 list \<Rightarrow> nat \<Rightarrow> slot list \<Rightarrow> nat \<Rightarrow> nat \<Rightarrow> nat \<Rightarrow> fault + (slot list \<times> nat)" where
  "lfn_loop sg name sequences b entry_ptr sequence i =
     (if sequence < sequences then
        (if entry_ptr < length b then
           (let r = write_long_entry sg name sequences sequence i (b ! entry_ptr)
            in lfn_loop sg name sequences (b[entry_ptr := fst r]) (entry_ptr + 1) (sequence + 1) (snd r))
         else Inl OutOfBounds)
      else Inr (b, entry_ptr))"
  by pat_completeness auto
termination
  by (relation "measure (\<lambda>(sg, name, sequences, b, p, sequence, i). sequences - sequence)") auto

text \<open>
  The two loops that copy the name into \<open>entry.name\<close>: up to 11 bytes of the C string, then
  spaces.
\<close>

function copy_name :: "u8 list \<Rightarrow> nat \<Rightarrow> slot \<Rightarrow> slot \<times> nat" where
  "copy_name name i e =
     (if i < 11 \<and> i < length name then copy_name name (i + 1) (set_u8 e i (name ! i))
      else (e, i))"
  by pat_completeness auto
termination
  by (relation "measure (\<lambda>(name, i, e). 11 - i)") auto

function pad_name :: "nat \<Rightarrow> slot \<Rightarrow> slot" where
  "pad_name i e = (if i < 11 then pad_name (i + 1) (set_u8 e i 0x20) else e)"
  by pat_completeness auto
termination
  by (relation "measure (\<lambda>(i, e). 11 - i)") auto

definition write_short_entry :: "u8 list \<Rightarrow> u32 \<Rightarrow> slot \<Rightarrow> slot" where
  "write_short_entry name cluster e =
     (let r = copy_name name 0 e;
          e1 = pad_name (snd r) (fst r);
          e2 = set_u16 e1 14 0;
          e3 = set_u8 e2 13 0;
          e4 = set_u16 e3 16 0;
          e5 = set_u16 e4 18 0;
          e6 = set_u16 e5 24 0;
          e7 = set_u16 e6 22 0;
          e8 = set_u8 e7 12 0;
          e9 = set_u32 e8 28 0;
          e10 = set_u16 e9 26 (ucast cluster)
      in set_u16 e10 20 (ucast (drop_bit 16 cluster)))"

text \<open>
  \<open>name\<close> is the C string (\<open>c_str()\<close>) and \<open>len\<close> its \<open>str_len\<close>; \<open>(len - 1) / 11 + 1\<close>
  is computed on \<open>size_t\<close>.  The entry pointer is an index into the buffer, \<open>None\<close> is
  \<open>nullptr\<close>.
\<close>

definition c_str :: "u8 list \<Rightarrow> u8 list" where
  "c_str s = takeWhile (\<lambda>c. c \<noteq> 0) s"

definition lfn_sequences :: "nat \<Rightarrow> nat" where
  "lfn_sequences len = unat ((word_of_nat len - 1 :: u64) div 11 + 1)"

definition init_entry ::
  "bool \<Rightarrow> bool \<Rightarrow> slot list \<Rightarrow> nat option \<Rightarrow> u8 list \<Rightarrow> u32 \<Rightarrow> fault + (slot list \<times> nat)" where
  "init_entry sg Long b entry_ptr name cluster =
     (case entry_ptr of
        None \<Rightarrow> Inl NullDereference
      | Some p \<Rightarrow>
          (case (if Long then lfn_loop sg name (lfn_sequences (length name)) b p 0 0
                 else Inr (b, p)) of
             Inl f \<Rightarrow> Inl f
           | Inr r \<Rightarrow>
               let b1 = fst r; p1 = snd r in
               if p1 < length b1
               then Inr (b1[p1 := write_short_entry name cluster (b1 ! p1)], p1)
               else Inl OutOfBounds))"

definition init_directory_entry ::
  "bool \<Rightarrow> bool \<Rightarrow> slot list \<Rightarrow> nat option \<Rightarrow> u8 list \<Rightarrow> u32 \<Rightarrow> fault + slot list" where
  "init_directory_entry sg Long b entry_ptr name cluster =
     (case init_entry sg Long b entry_ptr name cluster of
        Inl f \<Rightarrow> Inl f
      | Inr r \<Rightarrow> Inr ((fst r)[snd r := set_u8 (fst r ! snd r) 11 0x10]))"

definition init_file_entry ::
  "bool \<Rightarrow> bool \<Rightarrow> slot list \<Rightarrow> nat option \<Rightarrow> u8 list \<Rightarrow> u32 \<Rightarrow> fault + slot list" where
  "init_file_entry sg Long b entry_ptr name cluster =
     (case init_entry sg Long b entry_ptr name cluster of
        Inl f \<Rightarrow> Inl f
      | Inr r \<Rightarrow> Inr ((fst r)[snd r := set_u8 (fst r ! snd r) 11 0x0]))"

subsection \<open>The operations of the driver\<close>

text \<open>
  Every operation returns its value with the cache as it leaves it (and the disks, when it
  writes).  A result of several values is a tuple, read with \<open>fst\<close> and \<open>snd\<close>.
  \<open>free_clusters * sectors_per_cluster * 512\<close> is a product of \<open>unsigned int\<close>.
\<close>

definition free_size ::
  "fat32_state \<Rightarrow> disks \<Rightarrow> dd \<Rightarrow> partition_descriptor \<Rightarrow> fault + (u64 \<times> fat32_state)" where
  "free_size st w disk part =
     (case cache_disk_partition st w disk part of
        Inl f \<Rightarrow> Inl f
      | Inr r \<Rightarrow>
          let ok = fst r; st1 = snd r in
          if \<not> ok then Inr (0, st1)
          else
            (case fat_is st1 of
               None \<Rightarrow> Inl NullDereference
             | Some fis \<Rightarrow>
                 (case fat_bs st1 of
                    None \<Rightarrow> Inl NullDereference
                  | Some bs \<Rightarrow>
                      Inr (ucast (free_clusters fis * ucast (sectors_per_cluster bs) * 512), st1))))"

definition ls ::
  "env \<Rightarrow> fat32_state \<Rightarrow> disks \<Rightarrow> dd \<Rightarrow> partition_descriptor \<Rightarrow> u8 list list
     \<Rightarrow> (fault + (disk_file list \<times> fat32_state)) option" where
  "ls ev st w disk part path =
     (case cache_disk_partition st w disk part of
        Inl f \<Rightarrow> Some (Inl f)
      | Inr r \<Rightarrow>
          let ok = fst r; st1 = snd r in
          if \<not> ok then Some (Inr ([], st1))
          else
            (case files_of_path ev st1 w disk path of
               None \<Rightarrow> None
             | Some (Inl f) \<Rightarrow> Some (Inl f)
             | Some (Inr fs) \<Rightarrow> Some (Inr (fs, st1))))"

text \<open>
  The loop of \<open>read_file\<close>: \<open>content\<close> starts empty and one byte is appended for each step
  of \<open>read\<close>, so \<open>read\<close> is the length of \<open>content\<close>.  The cluster buffer holds
  \<open>512 * sectors_per_cluster\<close> bytes.
\<close>

partial_function (option) read_file_loop ::
  "fat32_state \<Rightarrow> disks \<Rightarrow> dd \<Rightarrow> u32 \<Rightarrow> nat \<Rightarrow> u8 list \<Rightarrow> (fault + u8 list) option" where
  "read_file_loop st w disk cluster_number file_size content =
     (if length content < file_size then
        (case fat_bs st of
           None \<Rightarrow> Some (Inl NullDereference)
         | Some bs \<Rightarrow>
        (case cluster_lba st (ucast cluster_number) of
           Inl f \<Rightarrow> Some (Inl f)
         | Inr lba \<Rightarrow>
        (case read_sectors w disk lba (unat (sectors_per_cluster bs)) of
           None \<Rightarrow> Some (Inr content)
         | Some cluster \<Rightarrow>
             (let content' = content @ take (file_size - length content) cluster in
              if length content' < file_size then
                (case next_cluster st w disk cluster_number of
                   Inl f \<Rightarrow> Some (Inl f)
                 | Inr c \<Rightarrow>
                     if c = 0 then Some (Inr content')
                     else if c = 0x0FFFFFF7 then Some (Inr content')
                     else read_file_loop st w disk c file_size content')
              else read_file_loop st w disk cluster_number file_size content'))))
      else Some (Inr content))"

declare read_file_loop.simps [code]

definition read_file ::
  "env \<Rightarrow> fat32_state \<Rightarrow> disks \<Rightarrow> dd \<Rightarrow> partition_descriptor \<Rightarrow> u8 list list \<Rightarrow> u8 list
     \<Rightarrow> (fault + (u8 list \<times> fat32_state)) option" where
  "read_file ev st w disk part path fname =
     (case cache_disk_partition st w disk part of
        Inl f \<Rightarrow> Some (Inl f)
      | Inr r \<Rightarrow>
          let ok = fst r; st1 = snd r in
          if \<not> ok then Some (Inr ([], st1))
          else
            (case files_of_path ev st1 w disk path of
               None \<Rightarrow> None
             | Some (Inl f) \<Rightarrow> Some (Inl f)
             | Some (Inr all_files) \<Rightarrow>
                 (case find (\<lambda>f. file_name f = fname) all_files of
                    None \<Rightarrow> Some (Inr ([], st1))
                  | Some f \<Rightarrow>
                      if size_bytes f = 0 then Some (Inr ([], st1))
                      else
                        (case read_file_loop st1 w disk (location f) (size_bytes f) [] of
                           None \<Rightarrow> None
                         | Some (Inl e) \<Rightarrow> Some (Inl e)
                         | Some (Inr content) \<Rightarrow> Some (Inr (content, st1))))))"

text \<open>
  \<open>mkdir\<close> and \<open>touch\<close> run the same statements, from \<open>find_free_cluster\<close> to
  \<open>write_is\<close>, but for \<open>init_directory_entry<true>\<close> in the one and
  \<open>init_file_entry<true>\<close> in the other: \<open>new_entry\<close> is that part, \<open>is_dir\<close> choosing the
  initialiser.  Its result is \<open>Inr (False, ...)\<close> where the source returns false, and
  \<open>Inr (True, ...)\<close> with the allocated cluster where the source goes on.
\<close>

definition new_entry ::
  "env \<Rightarrow> bool \<Rightarrow> fat32_state \<Rightarrow> disks \<Rightarrow> dd \<Rightarrow> partition_descriptor \<Rightarrow> u32 \<Rightarrow> u8 list
     \<Rightarrow> fault + (bool \<times> u32 \<times> fat32_state \<times> disks)" where
  "new_entry ev is_dir st w disk part parent name =
     (case find_free_cluster st w disk of
        Inl f \<Rightarrow> Inl f
      | Inr cluster \<Rightarrow>
     if cluster = 0 then Inr (False, cluster, st, w) else
     (case fat_bs st of
        None \<Rightarrow> Inl NullDereference
      | Some bs \<Rightarrow>
     (case cluster_lba st (ucast parent) of
        Inl f \<Rightarrow> Inl f
      | Inr plba \<Rightarrow>
     (case read_sectors w disk plba (unat (sectors_per_cluster bs)) of
        None \<Rightarrow> Inr (False, cluster, st, w)
      | Some b \<Rightarrow>
     (let r = find_free_entry (char_signed ev)
                (entries_of (16 * unat (sectors_per_cluster bs)) b) (number_of_entries name);
          directory_cluster = fst r; new_directory_entry = snd r in
      case (if is_dir
            then init_directory_entry (char_signed ev) True directory_cluster new_directory_entry
                   (c_str name) cluster
            else init_file_entry (char_signed ev) True directory_cluster new_directory_entry
                   (c_str name) cluster) of
        Inl f \<Rightarrow> Inl f
      | Inr directory_cluster' \<Rightarrow>
     (let r1 = write_sectors w disk plba (unat (sectors_per_cluster bs)) (bytes_of directory_cluster');
          ok1 = fst r1; w1 = snd r1 in
      if \<not> ok1 then Inr (False, cluster, st, w1) else
     (case write_fat_value st w1 disk cluster 0x0FFFFFF8 of
        Inl f \<Rightarrow> Inl f
      | Inr r2 \<Rightarrow>
     (let ok2 = fst r2; w2 = snd r2 in
      if \<not> ok2 then Inr (False, cluster, st, w2) else
     (case fat_is st of
        None \<Rightarrow> Inl NullDereference
      | Some fis \<Rightarrow>
     (let st2 = st\<lparr>fat_is := Some (set_u32 fis 488 (free_clusters fis - 1))\<rparr> in
      case write_is st2 w2 disk part of
        Inl f \<Rightarrow> Inl f
      | Inr r3 \<Rightarrow> Inr (fst r3, cluster, st2, snd r3)))))))))))"

text \<open>\<open>for(size_t j = 2; j < new_directory_cluster.size() - 1; ++j)\<close>\<close>

function mark_unused :: "slot list \<Rightarrow> nat \<Rightarrow> slot list" where
  "mark_unused b j =
     (if j < length b - 1 then mark_unused (b[j := set_u8 (b ! j) 0 0xE5]) (j + 1) else b)"
  by pat_completeness auto
termination
  by (relation "measure (\<lambda>(b, j). length b - j)") auto

text \<open>
  The last part of \<open>mkdir\<close>: the new directory cluster, a fresh heap array, written at
  \<open>cluster_lba(cluster)\<close>.
\<close>

definition new_directory ::
  "env \<Rightarrow> fat32_state \<Rightarrow> disks \<Rightarrow> dd \<Rightarrow> u32 \<Rightarrow> u32 \<Rightarrow> fault + (bool \<times> disks)" where
  "new_directory ev st w disk cluster parent =
     (case fat_bs st of
        None \<Rightarrow> Inl NullDereference
      | Some bs \<Rightarrow>
     (let n = 16 * unat (sectors_per_cluster bs);
          new_directory_cluster = entries_of n (map (heap_garbage ev) [0..<32 * n]) in
      case init_directory_entry (char_signed ev) False new_directory_cluster (Some 0) [0x2E] cluster of
        Inl f \<Rightarrow> Inl f
      | Inr d1 \<Rightarrow>
     (case init_directory_entry (char_signed ev) False d1 (Some 1) [0x2E, 0x2E] parent of
        Inl f \<Rightarrow> Inl f
      | Inr d2 \<Rightarrow>
     (let d3 = mark_unused d2 2;
          d4 = d3[length d3 - 1 := set_u8 (d3 ! (length d3 - 1)) 0 0x0] in
      case cluster_lba st (ucast cluster) of
        Inl f \<Rightarrow> Inl f
      | Inr lba \<Rightarrow> Inr (write_sectors w disk lba (unat (sectors_per_cluster bs)) (bytes_of d4))))))"

definition mkdir ::
  "env \<Rightarrow> fat32_state \<Rightarrow> disks \<Rightarrow> dd \<Rightarrow> partition_descriptor \<Rightarrow> u8 list list \<Rightarrow> u8 list
     \<Rightarrow> (fault + (bool \<times> fat32_state \<times> disks)) option" where
  "mkdir ev st w disk part path dir_name =
     (case cache_disk_partition st w disk part of
        Inl f \<Rightarrow> Some (Inl f)
      | Inr r \<Rightarrow>
          let ok = fst r; st1 = snd r in
          if \<not> ok then Some (Inr (False, st1, w))
          else
            (case find_cluster_number ev st1 w disk path of
               None \<Rightarrow> None
             | Some (Inl f) \<Rightarrow> Some (Inl f)
             | Some (Inr r1) \<Rightarrow>
                 let found = fst r1; parent = snd r1 in
                 if \<not> found then Some (Inr (False, st1, w))
                 else
                   (case new_entry ev True st1 w disk part parent dir_name of
                      Inl f \<Rightarrow> Some (Inl f)
                    | Inr r2 \<Rightarrow>
                        let ok1 = fst r2; cluster = fst (snd r2);
                            st2 = fst (snd (snd r2)); w1 = snd (snd (snd r2)) in
                        if \<not> ok1 then Some (Inr (False, st2, w1))
                        else
                          (case new_directory ev st2 w1 disk cluster parent of
                             Inl f \<Rightarrow> Some (Inl f)
                           | Inr r3 \<Rightarrow> Some (Inr (fst r3, st2, snd r3))))))"

definition touch ::
  "env \<Rightarrow> fat32_state \<Rightarrow> disks \<Rightarrow> dd \<Rightarrow> partition_descriptor \<Rightarrow> u8 list list \<Rightarrow> u8 list
     \<Rightarrow> (fault + (bool \<times> fat32_state \<times> disks)) option" where
  "touch ev st w disk part path fname =
     (case cache_disk_partition st w disk part of
        Inl f \<Rightarrow> Some (Inl f)
      | Inr r \<Rightarrow>
          let ok = fst r; st1 = snd r in
          if \<not> ok then Some (Inr (False, st1, w))
          else
            (case find_cluster_number ev st1 w disk path of
               None \<Rightarrow> None
             | Some (Inl f) \<Rightarrow> Some (Inl f)
             | Some (Inr r1) \<Rightarrow>
                 let found = fst r1; parent = snd r1 in
                 if \<not> found then Some (Inr (False, st1, w))
                 else
                   (case new_entry ev False st1 w disk part parent fname of
                      Inl f \<Rightarrow> Some (Inl f)
                    | Inr r2 \<Rightarrow>
                        Some (Inr (fst r2, fst (snd (snd r2)), snd (snd (snd r2)))))))"

subsection \<open>Reference computations, in the words of the specification\<close>

text \<open>
  The FAT entry of cluster \<open>c\<close> as the specification addresses it: sector
  \<open>fat_begin + (c * 4) / 512\<close>, index \<open>c % 128\<close>, low 28 bits.
\<close>

definition spec_fat_entry :: "disks \<Rightarrow> dd \<Rightarrow> u64 \<Rightarrow> nat \<Rightarrow> u32 option" where
  "spec_fat_entry w disk fb c =
     (case read_sectors w disk (fb + word_of_nat ((c * 4) div 512)) 1 of
        None \<Rightarrow> None
      | Some t \<Rightarrow> Some (get_u32 t (4 * (c mod 128)) AND 0x0FFFFFFF))"

text \<open>
  The reference alias checksum: \<open>sum = rotate_right_8(sum) + byte\<close> over the 11 bytes of a
  short name, on unsigned 8-bit values.
\<close>

definition rotate_right_8 :: "u8 \<Rightarrow> u8" where
  "rotate_right_8 s = (if s AND 1 \<noteq> 0 then 0x80 else 0) + drop_bit 1 s"

definition reference_checksum :: "u8 list \<Rightarrow> u8" where
  "reference_checksum bytes = foldl (\<lambda>s b. rotate_right_8 s + b) 0 bytes"

text \<open>
  The code unit a long entry holds for position \<open>k\<close> of the name: the byte converted to
  \<open>uint16_t\<close>, or the padding \<open>0xFF\<close> the code writes behind the end of the name.
\<close>

definition lfn_unit :: "bool \<Rightarrow> u8 list \<Rightarrow> nat \<Rightarrow> u16" where
  "lfn_unit sg name k = (if k < length name then char_to_u16 sg (name ! k) else 0xFF)"

text \<open>The 13 code units of a long entry, in the order of the fields 5 + 6 + 2.\<close>

definition le_units :: "slot \<Rightarrow> u16 list" where
  "le_units e =
     map (le_name_first e) [0..<5] @ map (le_name_second e) [0..<6] @ map (le_name_third e) [0..<2]"

text \<open>
  The long entry of sequence \<open>s\<close> (counted from 0) out of \<open>k\<close> for \<open>name\<close>, its code units
  being those of the positions from \<open>base\<close> on.
\<close>

definition long_entry_at :: "bool \<Rightarrow> u8 list \<Rightarrow> nat \<Rightarrow> nat \<Rightarrow> nat \<Rightarrow> slot \<Rightarrow> bool" where
  "long_entry_at sg name k s base e \<longleftrightarrow>
     le_sequence_number e = (if s = k - 1 then word_of_nat (s + 1) OR 0x40 else word_of_nat (s + 1))
     \<and> le_attrib e = 0x0F
     \<and> le_reserved e = 0x0
     \<and> le_starting_cluster e = 0x0
     \<and> le_alias_checksum e = alias_checksum sg name
     \<and> le_units e = map (lfn_unit sg name) [base..<base + 13]"

text \<open>The index into the name after a loop of \<open>n\<close> code units that starts at \<open>i\<close>.\<close>

definition advance :: "u8 list \<Rightarrow> nat \<Rightarrow> nat \<Rightarrow> nat" where
  "advance name i n = (if i + n \<le> length name then i + n else max i (length name))"

subsection \<open>The records of a listing\<close>

text \<open>
  What \<open>files\<close> reports for a directory: every record comes from an entry of a cluster buffer
  that is not empty, and a record with the directory flag has the size of one cluster.
\<close>

definition listed :: "u8 \<Rightarrow> disk_file \<Rightarrow> bool" where
  "listed spc f \<longleftrightarrow> spc \<noteq> 0 \<and> (directory f \<longrightarrow> size_bytes f = unat spc * 512)"

text \<open>
  The loop of \<open>files\<close> keeps it: the records of the result have it when those found so
  far have.
\<close>

definition keeps_listed :: "fat32_state \<Rightarrow> scan \<Rightarrow> (fault + disk_file list) \<Rightarrow> bool" where
  "keeps_listed st sc y \<longleftrightarrow>
     (\<forall>bs fs. fat_bs st = Some bs \<longrightarrow> (\<forall>f \<in> set (files sc). listed (sectors_per_cluster bs) f)
        \<longrightarrow> y = Inr fs \<longrightarrow> (\<forall>f \<in> set fs. listed (sectors_per_cluster bs) f))"

subsection \<open>Images and inputs the results below are evaluated on\<close>

text \<open>
  A small FAT32 volume on disk 0, partition 0 starting at sector 0: the boot sector, the
  information sector at sector 1 (100 free clusters), two reserved sectors, one FAT of four
  sectors at sectors 2 to 5, the data clusters from sector 6, the root directory in cluster 2.
  \<open>image_boot n\<close> has \<open>n\<close> sectors per cluster.  In \<open>image_fat\<close> the entries of clusters
  0, 1 and 2 are set and every other cluster is free.
\<close>

definition image_boot :: "u8 \<Rightarrow> sector" where
  "image_boot n = (replicate 512 0)[13 := n, 14 := 2, 16 := 1, 36 := 4, 44 := 2, 48 := 1]"

definition image_fsi :: sector where
  "image_fsi = (replicate 512 0)[488 := 100]"

definition image_fat :: sector where
  "image_fat =
     [0xF8, 0xFF, 0xFF, 0x0F, 0xFF, 0xFF, 0xFF, 0x0F, 0xF8, 0xFF, 0xFF, 0x0F] @ replicate 500 0"

definition empty_volume :: blockdev where
  "empty_volume lba =
     Some (if lba = 0 then image_boot 1 else if lba = 1 then image_fsi
           else if lba = 2 then image_fat else replicate 512 0)"

text \<open>The same volume with a root directory whose 16 slots are all in use.\<close>

definition full_root_volume :: blockdev where
  "full_root_volume lba =
     Some (if lba = 0 then image_boot 1 else if lba = 1 then image_fsi
           else if lba = 2 then image_fat else if lba = 6 then replicate 512 0x41
           else replicate 512 0)"

text \<open>
  A volume of two sectors per cluster: every cluster of the first FAT sector is allocated,
  cluster 128 (the first entry of the second FAT sector) is allocated, cluster 129 and all that
  follow are free.
\<close>

definition two_sector_volume :: blockdev where
  "two_sector_volume lba =
     Some (if lba = 0 then image_boot 2 else if lba = 1 then image_fsi
           else if lba = 2 then concat (replicate 128 [0xF8, 0xFF, 0xFF, 0x0F])
           else if lba = 3 then [0xF8, 0xFF, 0xFF, 0x0F] @ replicate 508 0
           else replicate 512 0)"

text \<open>The disks when every disk identifier names the same device.\<close>

definition one_volume :: "blockdev \<Rightarrow> disks" where
  "one_volume d u = d"

text \<open>A directory cluster of 16 slots as a fresh volume holds it: every byte is zero.\<close>

definition fresh_directory :: "slot list" where
  "fresh_directory = replicate 16 (replicate 32 0)"

text \<open>
  A directory cluster of 16 slots with one entry in use (slot 0), the end-of-directory marker in
  slot 1 and the slots 2 to 15 marked unused (\<open>name[0] == 0xE5\<close>).
\<close>

definition marked_directory :: "slot list" where
  "marked_directory =
     [replicate 32 0x41, replicate 32 0] @ replicate 14 (0xE5 # replicate 31 0)"

text \<open>
  A volume whose root directory holds one short entry, the directory \<open>DOCS\<close> in cluster 3
  (sector 7); the cluster of the directory is filled with the byte \<open>0x2E\<close>.  On
  \<open>bad_dir_volume\<close> the transfer of sector 7 fails.
\<close>

definition name_DOCS :: "u8 list" where
  "name_DOCS = [0x44, 0x4F, 0x43, 0x53]"

definition docs_entry :: slot where
  "docs_entry = name_DOCS @ replicate 7 0x20 @ [0x10] @ replicate 14 0 @ [0x03, 0x00] @ replicate 4 0"

definition dir_volume :: blockdev where
  "dir_volume lba =
     Some (if lba = 0 then image_boot 1 else if lba = 1 then image_fsi
           else if lba = 2 then image_fat else if lba = 6 then docs_entry @ replicate 480 0
           else if lba = 7 then replicate 512 0x2E
           else replicate 512 0)"

definition bad_dir_volume :: blockdev where
  "bad_dir_volume lba = (if lba = 7 then None else dir_volume lba)"

text \<open>The cache after a successful load from one of the volumes of one sector per cluster.\<close>

definition loaded_state :: fat32_state where
  "loaded_state =
     \<lparr>cached_disk = 0, cached_partition = 0, partition_start = 0,
      fat_bs = Some (image_boot 1), fat_is = Some image_fsi\<rparr>"

text \<open>A device on which every transfer fails.\<close>

definition dead_volume :: blockdev where
  "dead_volume lba = None"

definition disk0 :: dd where
  "disk0 = \<lparr>dd_uuid = 0\<rparr>"

definition part0 :: partition_descriptor where
  "part0 = \<lparr>pd_uuid = 0, pd_start = 0\<rparr>"

definition zero_env :: "bool \<Rightarrow> env" where
  "zero_env sg = \<lparr>char_signed = sg, stack_garbage = (\<lambda>k. 0), heap_garbage = (\<lambda>k. 0)\<rparr>"

text \<open>The memory that holds the letter \<open>A\<close> (0x41) wherever the driver has not written.\<close>

definition letter_env :: "bool \<Rightarrow> env" where
  "letter_env sg =
     \<lparr>char_signed = sg, stack_garbage = (\<lambda>k. 0x41), heap_garbage = (\<lambda>k. 0x41)\<rparr>"

text \<open>The names \<open>docs\<close>, \<open>a\<close> and \<open>abcdefghijkl\<close> (12 bytes).\<close>

definition name_docs :: "u8 list" where
  "name_docs = [0x64, 0x6F, 0x63, 0x73]"

definition name_a :: "u8 list" where
  "name_a = [0x61]"

definition name_12 :: "u8 list" where
  "name_12 = [0x61, 0x62, 0x63, 0x64, 0x65, 0x66, 0x67, 0x68, 0x69, 0x6A, 0x6B, 0x6C]"

section \<open>Properties of the directory engine\<close>

text \<open>
  The equations of the loops are unfolded by hand where a proof needs them.
\<close>

declare find_free_cluster_loop.simps [simp del]
declare new_end_loop.simps [simp del]
declare checksum_loop.simps [simp del]
declare lfn_loop.simps [simp del]
declare copy_name.simps [simp del]
declare pad_name.simps [simp del]
declare mark_unused.simps [simp del]

lemma char_to_int_eq_0: "char_to_int sg c = 0 \<longleftrightarrow> c = 0"
  by (simp add: char_to_int_def uint_0_iff signed_eq_0_iff)

lemma end_of_directory_iff: "end_of_directory sg e \<longleftrightarrow> ce_name e 0 = 0"
  by (simp add: end_of_directory_def char_to_int_eq_0)

lemma first_end_Some:
  "first_end sg es i = Some e \<Longrightarrow> i \<le> e \<and> e < i + length es \<and> ce_name (es ! (e - i)) 0 = 0"
proof (induction es arbitrary: i)
  case Nil
  then show ?case by simp
next
  case (Cons a es)
  show ?case
  proof (cases "end_of_directory sg a")
    case True
    with Cons.prems show ?thesis by (simp add: end_of_directory_iff)
  next
    case False
    with Cons.prems have "first_end sg es (i + 1) = Some e" by simp
    from Cons.IH [OF this] show ?thesis by (auto simp: nth_Cons')
  qed
qed

lemma first_end_least:
  "first_end sg es i = Some e \<Longrightarrow> \<forall>j. i \<le> j \<and> j < e \<longrightarrow> ce_name (es ! (j - i)) 0 \<noteq> 0"
proof (induction es arbitrary: i)
  case Nil
  then show ?case by simp
next
  case (Cons a es)
  show ?case
  proof (cases "end_of_directory sg a")
    case True
    with Cons.prems show ?thesis by auto
  next
    case False
    with Cons.prems have rest: "first_end sg es (i + 1) = Some e" by simp
    show ?thesis
    proof (intro allI impI)
      fix j assume j: "i \<le> j \<and> j < e"
      show "ce_name ((a # es) ! (j - i)) 0 \<noteq> 0"
      proof (cases "j = i")
        case True
        with False show ?thesis by (simp add: end_of_directory_iff)
      next
        case neq: False
        with j have "i + 1 \<le> j \<and> j < e" by simp
        with Cons.IH [OF rest] have "ce_name (es ! (j - (i + 1))) 0 \<noteq> 0" by blast
        moreover have "j - i = Suc (j - (i + 1))" using j neq by arith
        ultimately show ?thesis by simp
      qed
    qed
  qed
qed

lemma free_sequence_spec:
  "free_sequence sg n es i sz = (s, st, se) \<Longrightarrow> s = n \<Longrightarrow> sz < n \<Longrightarrow> sz \<le> i
     \<Longrightarrow> length pre = i
     \<Longrightarrow> \<forall>j. i - sz \<le> j \<and> j < i
           \<longrightarrow> end_of_directory sg ((pre @ es) ! j) \<or> entry_unused sg ((pre @ es) ! j)
     \<Longrightarrow> st + n = se + 1 \<and> se < i + length es
         \<and> (\<forall>j. st \<le> j \<and> j \<le> se
               \<longrightarrow> end_of_directory sg ((pre @ es) ! j) \<or> entry_unused sg ((pre @ es) ! j))"
proof (induction es arbitrary: i sz pre)
  case Nil
  then show ?case by auto
next
  case (Cons a es)
  have app: "pre @ a # es = (pre @ [a]) @ es" by simp
  have at_i: "(pre @ a # es) ! i = a" using Cons.prems(5) by (simp add: nth_append)
  show ?case
  proof (cases "end_of_directory sg a \<or> entry_unused sg a")
    case free: True
    have inv: "\<forall>j. i - sz \<le> j \<and> j < i + 1
           \<longrightarrow> end_of_directory sg ((pre @ a # es) ! j) \<or> entry_unused sg ((pre @ a # es) ! j)"
    proof (intro allI impI)
      fix j assume j: "i - sz \<le> j \<and> j < i + 1"
      show "end_of_directory sg ((pre @ a # es) ! j) \<or> entry_unused sg ((pre @ a # es) ! j)"
      proof (cases "j = i")
        case True
        with free at_i show ?thesis by simp
      next
        case False
        with j have "i - sz \<le> j \<and> j < i" by simp
        with Cons.prems(6) show ?thesis by blast
      qed
    qed
    show ?thesis
    proof (cases "sz + 1 = n")
      case True
      with free Cons.prems(1) have r: "s = sz + 1" "st = i - sz" "se = i" by auto
      show ?thesis using r True Cons.prems(4) inv by auto
    next
      case False
      with free Cons.prems(1)
      have step: "free_sequence sg n es (i + 1) (sz + 1) = (s, st, se)" by auto
      have "sz + 1 < n" using False Cons.prems(3) by simp
      moreover have "sz + 1 \<le> i + 1" using Cons.prems(4) by simp
      moreover have "length (pre @ [a]) = i + 1" using Cons.prems(5) by simp
      moreover have "\<forall>j. i + 1 - (sz + 1) \<le> j \<and> j < i + 1
           \<longrightarrow> end_of_directory sg (((pre @ [a]) @ es) ! j) \<or> entry_unused sg (((pre @ [a]) @ es) ! j)"
        using inv by simp
      ultimately have "st + n = se + 1 \<and> se < i + 1 + length es
         \<and> (\<forall>j. st \<le> j \<and> j \<le> se
               \<longrightarrow> end_of_directory sg (((pre @ [a]) @ es) ! j) \<or> entry_unused sg (((pre @ [a]) @ es) ! j))"
        by (rule Cons.IH [OF step Cons.prems(2)])
      then show ?thesis by (simp del: append_assoc add: app)
    qed
  next
    case False
    with Cons.prems(1) have step: "free_sequence sg n es (i + 1) 0 = (s, st, se)" by auto
    have "0 < n" using Cons.prems(3) by simp
    moreover have "0 \<le> i + 1" by simp
    moreover have "length (pre @ [a]) = i + 1" using Cons.prems(5) by simp
    moreover have "\<forall>j. i + 1 - 0 \<le> j \<and> j < i + 1
           \<longrightarrow> end_of_directory sg (((pre @ [a]) @ es) ! j) \<or> entry_unused sg (((pre @ [a]) @ es) ! j)"
      by auto
    ultimately have "st + n = se + 1 \<and> se < i + 1 + length es
         \<and> (\<forall>j. st \<le> j \<and> j \<le> se
               \<longrightarrow> end_of_directory sg (((pre @ [a]) @ es) ! j) \<or> entry_unused sg (((pre @ [a]) @ es) ! j))"
      by (rule Cons.IH [OF step Cons.prems(2)])
    then show ?thesis by (simp del: append_assoc add: app)
  qed
qed

lemma new_end_loop_spec:
  "new_end_loop sg d se i ne = r \<Longrightarrow> i < length d
     \<Longrightarrow> (ne = - 1 \<and> i = length d - 1)
         \<or> (ne = int (i + 1) \<and> se < i + 1 \<and> i + 1 < length d
            \<and> (\<forall>j. i + 1 \<le> j \<and> j < length d
                  \<longrightarrow> end_of_directory sg (d ! j) \<or> entry_unused sg (d ! j)))
     \<Longrightarrow> 0 \<le> r
     \<Longrightarrow> se < nat r \<and> nat r < length d
         \<and> (\<forall>j. nat r \<le> j \<and> j < length d
               \<longrightarrow> end_of_directory sg (d ! j) \<or> entry_unused sg (d ! j))
         \<and> (nat r = se + 1
            \<or> \<not> (end_of_directory sg (d ! (nat r - 1)) \<or> entry_unused sg (d ! (nat r - 1))))"
proof (induction sg d se i ne rule: new_end_loop.induct)
  case (1 sg d se i ne)
  show ?case
  proof (cases "i > 0 \<and> \<not> i \<le> se \<and> (end_of_directory sg (d ! i) \<or> entry_unused sg (d ! i))")
    case True
    then have step: "new_end_loop sg d se (i - 1) (int i) = r"
      using "1.prems"(1) by (subst (asm) new_end_loop.simps) auto
    have lt: "i - 1 < length d" using "1.prems"(2) by simp
    have free_i: "\<forall>j. i \<le> j \<and> j < length d
                  \<longrightarrow> end_of_directory sg (d ! j) \<or> entry_unused sg (d ! j)"
    proof (intro allI impI)
      fix j assume j: "i \<le> j \<and> j < length d"
      show "end_of_directory sg (d ! j) \<or> entry_unused sg (d ! j)"
      proof (cases "j = i")
        case True
        with \<open>0 < i \<and> \<not> i \<le> se \<and> (end_of_directory sg (d ! i) \<or> entry_unused sg (d ! i))\<close>
        show ?thesis by simp
      next
        case False
        with j have "i + 1 \<le> j \<and> j < length d" by simp
        with "1.prems"(3) j show ?thesis by auto
      qed
    qed
    have inv: "(int i = - 1 \<and> i - 1 = length d - 1)
         \<or> (int i = int (i - 1 + 1) \<and> se < i - 1 + 1 \<and> i - 1 + 1 < length d
            \<and> (\<forall>j. i - 1 + 1 \<le> j \<and> j < length d
                  \<longrightarrow> end_of_directory sg (d ! j) \<or> entry_unused sg (d ! j)))"
      using True "1.prems"(2) free_i by simp
    from "1.IH" [OF _ _ _ step lt inv "1.prems"(4)] True show ?thesis by simp
  next
    case False
    then have "r = ne" using "1.prems"(1) by (subst (asm) new_end_loop.simps) auto
    with "1.prems"(3,4) have r: "nat r = i + 1" and inv: "se < i + 1" "i + 1 < length d"
      "\<forall>j. i + 1 \<le> j \<and> j < length d
                  \<longrightarrow> end_of_directory sg (d ! j) \<or> entry_unused sg (d ! j)"
      by auto
    have "nat r = se + 1
            \<or> \<not> (end_of_directory sg (d ! (nat r - 1)) \<or> entry_unused sg (d ! (nat r - 1)))"
      using False r inv(1) by auto
    with r inv show ?thesis by simp
  qed
qed

lemma ce_name_set_u8_0: "0 < length e \<Longrightarrow> ce_name (set_u8 e 0 v) 0 = v"
  by (simp add: ce_name_def get_u8_def set_u8_def)

text \<open>
  C8.  Claim: for every directory-cluster buffer on which \<open>find_free_entry\<close> succeeds,
  afterwards exactly one slot of the buffer has \<open>name[0] == 0x00\<close>, and that slot lies at or
  after the allocated run.
  The function moves one marker and clears none: on the fresh directory the run of two slots is
  slots 0 and 1, and afterwards the slots 2 and 3 (and every slot up to the last) have
  \<open>name[0] == 0x00\<close>.
\<close>

theorem C8_counterexample:
  "snd (find_free_entry False fresh_directory 2) = Some 0
   \<and> ce_name (fst (find_free_entry False fresh_directory 2) ! 2) 0 = 0
   \<and> ce_name (fst (find_free_entry False fresh_directory 2) ! 3) 0 = 0"
  by code_simp

text \<open>
  C8 as amended: for every buffer of 32-byte slots on which \<open>find_free_entry\<close> succeeds with a
  run of \<open>n \<ge> 1\<close> slots starting at \<open>start\<close>, the run lies inside the buffer, on slots that
  were free (end-of-directory or unused).  Let \<open>e\<close> be the first slot with
  \<open>name[0] == 0x00\<close>.  If \<open>e\<close> lies at or after the end of the run (\<open>start + n \<le> e\<close>) the
  buffer is returned as it was.  Otherwise \<open>name[0]\<close> of slot \<open>e\<close> is set to \<open>0xE5\<close> and
  \<open>name[0]\<close> of slot \<open>m\<close> is set to \<open>0x00\<close>, where \<open>m\<close> is the first slot at or after the end
  of the run from which every slot up to the end of the buffer is free, and no other byte of
  the buffer changes.  In both cases the buffer keeps its length and afterwards at least one
  slot at or after the end of the run has \<open>name[0] == 0x00\<close>; every slot but \<open>e\<close> that had
  \<open>0x00\<close> keeps it, so that there may be several.  It holds whether \<open>char\<close> is signed or
  not.
\<close>

theorem C8_find_free_entry_moves_end_marker:
  assumes res: "find_free_entry sg d n = (d', Some start)"
    and slots: "\<forall>e \<in> set d. length e = 32"
    and n: "0 < n"
  shows "\<exists>e. first_end sg d 0 = Some e \<and> e < length d
           \<and> ce_name (d ! e) 0 = 0 \<and> (\<forall>i<e. ce_name (d ! i) 0 \<noteq> 0)
           \<and> start + n \<le> length d
           \<and> (\<forall>i. start \<le> i \<and> i < start + n
                 \<longrightarrow> end_of_directory sg (d ! i) \<or> entry_unused sg (d ! i))
           \<and> (if start + n \<le> e then d' = d
               else \<exists>m. start + n \<le> m \<and> m < length d
                      \<and> (\<forall>i. m \<le> i \<and> i < length d
                            \<longrightarrow> end_of_directory sg (d ! i) \<or> entry_unused sg (d ! i))
                      \<and> (m = start + n
                          \<or> \<not> (end_of_directory sg (d ! (m - 1)) \<or> entry_unused sg (d ! (m - 1))))
                      \<and> d' = d[e := set_u8 (d ! e) 0 0xE5, m := set_u8 (d ! m) 0 0x0])
           \<and> length d' = length d
           \<and> (\<exists>i. start + n \<le> i \<and> i < length d' \<and> ce_name (d' ! i) 0 = 0)"
proof -
  obtain end_idx where fe: "first_end sg d 0 = Some end_idx"
    using res by (cases "first_end sg d 0") (auto simp: find_free_entry_def)
  from first_end_Some [OF fe] have e_lt: "end_idx < length d" and e_zero: "ce_name (d ! end_idx) 0 = 0"
    by auto
  from first_end_least [OF fe] have e_least: "\<forall>i<end_idx. ce_name (d ! i) 0 \<noteq> 0"
    by simp
  obtain s st se where fs: "free_sequence sg n d 0 0 = (s, st, se)"
    by (cases "free_sequence sg n d 0 0") auto
  have s_n: "s = n" and start_st: "start = st"
    using res fe fs by (auto simp: find_free_entry_def Let_def split: if_splits)
  from free_sequence_spec [OF fs s_n n, of "[]"]
  have run: "st + n = se + 1" and se_lt: "se < length d"
    and run_free: "\<forall>j. st \<le> j \<and> j \<le> se
                     \<longrightarrow> end_of_directory sg (d ! j) \<or> entry_unused sg (d ! j)"
    by auto
  have inside: "start + n \<le> length d" using run se_lt start_st by simp
  have free: "\<forall>i. start \<le> i \<and> i < start + n
                 \<longrightarrow> end_of_directory sg (d ! i) \<or> entry_unused sg (d ! i)"
    using run_free run start_st by auto
  show ?thesis
  proof (cases "end_idx \<le> se")
    case False
    then have same: "d' = d" using res fe fs s_n by (auto simp: find_free_entry_def Let_def)
    have after: "start + n \<le> end_idx" using False run start_st by simp
    have "\<exists>i. start + n \<le> i \<and> i < length d' \<and> ce_name (d' ! i) 0 = 0"
      using same after e_lt e_zero by auto
    with fe e_lt e_zero e_least inside free same after show ?thesis by simp
  next
    case True
    define ne where "ne = new_end_loop sg d se (length d - 1) (- 1)"
    define m where "m = nat ne"
    have ne_pos: "0 \<le> ne" and d': "d' = (d[end_idx := set_u8 (d ! end_idx) 0 0xE5])
                 [nat ne := set_u8 ((d[end_idx := set_u8 (d ! end_idx) 0 0xE5]) ! nat ne) 0 0x0]"
      using res fe fs s_n True by (auto simp: find_free_entry_def Let_def ne_def split: if_splits)
    have "length d - 1 < length d" using e_lt by simp
    from new_end_loop_spec [OF ne_def [symmetric] this _ ne_pos]
    have rng: "se < m" "m < length d"
      and tail: "\<forall>j. m \<le> j \<and> j < length d
                   \<longrightarrow> end_of_directory sg (d ! j) \<or> entry_unused sg (d ! j)"
      and least: "m = se + 1
                   \<or> \<not> (end_of_directory sg (d ! (m - 1)) \<or> entry_unused sg (d ! (m - 1)))"
      by (simp_all add: m_def)
    have neq: "m \<noteq> end_idx" using True rng by simp
    have upd: "d' = d[end_idx := set_u8 (d ! end_idx) 0 0xE5, m := set_u8 (d ! m) 0 0x0]"
      using neq by (simp add: d' m_def)
    have before: "\<not> start + n \<le> end_idx" using True run start_st by simp
    have m_ge: "start + n \<le> m" using rng run start_st by simp
    have m_least: "m = start + n
         \<or> \<not> (end_of_directory sg (d ! (m - 1)) \<or> entry_unused sg (d ! (m - 1)))"
      using least run start_st by simp
    have len: "length d' = length d" by (simp add: upd)
    have "length (d ! m) = 32" using slots rng by simp
    then have "ce_name (d' ! m) 0 = 0"
      using rng by (simp add: upd ce_name_set_u8_0)
    then have ex: "\<exists>i. start + n \<le> i \<and> i < length d' \<and> ce_name (d' ! i) 0 = 0"
      using m_ge rng len by auto
    have "\<exists>m. start + n \<le> m \<and> m < length d
                      \<and> (\<forall>i. m \<le> i \<and> i < length d
                            \<longrightarrow> end_of_directory sg (d ! i) \<or> entry_unused sg (d ! i))
                      \<and> (m = start + n
                          \<or> \<not> (end_of_directory sg (d ! (m - 1)) \<or> entry_unused sg (d ! (m - 1))))
                      \<and> d' = d[end_idx := set_u8 (d ! end_idx) 0 0xE5, m := set_u8 (d ! m) 0 0x0]"
      using m_ge rng tail m_least upd by blast
    with fe e_lt e_zero e_least inside free before len ex show ?thesis by simp
  qed
qed

theorem C8_find_free_entry_moves_end_marker_witness:
  "list_all (\<lambda>e. length e = 32) marked_directory
   \<and> snd (find_free_entry False marked_directory 2) = Some 1
   \<and> first_end False marked_directory 0 = Some 1
   \<and> fst (find_free_entry False marked_directory 2)
       = marked_directory[1 := set_u8 (marked_directory ! 1) 0 0xE5,
                          3 := set_u8 (marked_directory ! 3) 0 0x0]
   \<and> ce_name (marked_directory ! 1) 0 = 0
   \<and> ce_name (marked_directory ! 3) 0 = 0xE5
   \<and> ce_name (fst (find_free_entry False marked_directory 2) ! 1) 0 = 0xE5
   \<and> ce_name (fst (find_free_entry False marked_directory 2) ! 3) 0 = 0"
proof -
  let ?d = marked_directory
  let ?d' = "fst (find_free_entry False marked_directory 2)"
  have slots: "\<forall>e \<in> set ?d. length e = 32"
    by (simp add: marked_directory_def)
  have len: "length ?d = 16"
    by (simp add: marked_directory_def)
  have ptr: "snd (find_free_entry False ?d 2) = Some 1"
    by code_simp
  then have res: "find_free_entry False ?d 2 = (?d', Some 1)"
    by (cases "find_free_entry False ?d 2") simp
  have fe: "first_end False ?d 0 = Some 1"
    by code_simp
  have unused: "\<And>j. 3 \<le> j \<Longrightarrow> j < 16 \<Longrightarrow> entry_unused False (?d ! j)"
    by (simp add: marked_directory_def nth_append nth_Cons' entry_unused_def ce_name_def
          get_u8_def char_to_int_def)
  from C8_find_free_entry_moves_end_marker [OF res slots] fe obtain m where
    m: "1 + 2 \<le> m" "m < length ?d"
    and least: "m = 1 + 2 \<or> \<not> (end_of_directory False (?d ! (m - 1)) \<or> entry_unused False (?d ! (m - 1)))"
    and upd: "?d' = ?d[1 := set_u8 (?d ! 1) 0 0xE5, m := set_u8 (?d ! m) 0 0x0]"
    by auto
  have "m = 3"
  proof (rule ccontr)
    assume "m \<noteq> 3"
    with m len have "3 \<le> m - 1" "m - 1 < 16" by simp_all
    then have "entry_unused False (?d ! (m - 1))" by (rule unused)
    with least \<open>m \<noteq> 3\<close> show False by simp
  qed
  with upd have eq: "?d' = ?d[1 := set_u8 (?d ! 1) 0 0xE5, 3 := set_u8 (?d ! 3) 0 0x0]"
    by simp
  have before: "ce_name (?d ! 1) 0 = 0" "ce_name (?d ! 3) 0 = 0xE5"
    by code_simp+
  have after: "ce_name (?d' ! 1) 0 = 0xE5" "ce_name (?d' ! 3) 0 = 0"
    by code_simp+
  from slots ptr fe eq before after show ?thesis
    by (simp add: list_all_iff)
qed

subsection \<open>The long entries written by \<open>init_entry\<close>\<close>

lemma u16_of_bytes:
  "ucast (ucast v :: u8) OR push_bit 8 (ucast (ucast (drop_bit 8 v) :: u8)) = (v :: u16)"
  by (rule bit_word_eqI) (auto simp: bit_simps)

lemma get_set_u16: "off + 1 < length e \<Longrightarrow> get_u16 (set_u16 e off v) off = v"
  by (simp add: get_u16_def set_u16_def u16_of_bytes)

lemma length_set_u16 [simp]: "length (set_u16 e off v) = length e"
  by (simp add: set_u16_def)

lemma length_set_u8 [simp]: "length (set_u8 e off v) = length e"
  by (simp add: set_u8_def)

lemma nth_set_u16_other: "q \<noteq> off \<Longrightarrow> q \<noteq> off + 1 \<Longrightarrow> set_u16 e off v ! q = e ! q"
  by (simp add: set_u16_def)

lemma nth_set_u8_other: "q \<noteq> off \<Longrightarrow> set_u8 e off v ! q = e ! q"
  by (simp add: set_u8_def)

lemma get_u16_cong: "a ! off = b ! off \<Longrightarrow> a ! (off + 1) = b ! (off + 1) \<Longrightarrow> get_u16 a off = get_u16 b off"
  by (simp add: get_u16_def)

lemma lfn_unit_advance: "lfn_unit sg name (advance name i n + j) = lfn_unit sg name (i + n + j)"
  by (auto simp: lfn_unit_def advance_def)

lemma fill_units_spec:
  "off + 2 * n \<le> length e \<Longrightarrow>
     length (fst (fill_units sg name off n e i)) = length e
     \<and> snd (fill_units sg name off n e i) = advance name i n
     \<and> (\<forall>j<n. get_u16 (fst (fill_units sg name off n e i)) (off + 2 * j) = lfn_unit sg name (i + j))
     \<and> (\<forall>q. q < off \<or> off + 2 * n \<le> q \<longrightarrow> fst (fill_units sg name off n e i) ! q = e ! q)"
proof (induction n arbitrary: off e i)
  case 0
  then show ?case by (simp add: advance_def)
next
  case (Suc n)
  define u where "u = lfn_unit sg name i"
  define i' where "i' = (if i < length name then i + 1 else i)"
  define e1 where "e1 = set_u16 e off u"
  have step: "fill_units sg name off (Suc n) e i = fill_units sg name (off + 2) n e1 i'"
    by (simp add: u_def i'_def e1_def lfn_unit_def)
  have len1: "off + 2 + 2 * n \<le> length e1" using Suc.prems by (simp add: e1_def)
  note IH = Suc.IH [OF len1, of i']
  let ?r = "fst (fill_units sg name (off + 2) n e1 i')"
  have pres: "\<And>q. q < off + 2 \<or> off + 2 + 2 * n \<le> q \<Longrightarrow> ?r ! q = e1 ! q"
    using IH by blast
  have first: "get_u16 ?r off = u"
  proof -
    have "?r ! off = e1 ! off" "?r ! (off + 1) = e1 ! (off + 1)"
      using pres [of off] pres [of "off + 1"] by simp_all
    then have "get_u16 ?r off = get_u16 e1 off"
      by (rule get_u16_cong)
    also have "\<dots> = u" using Suc.prems by (simp add: e1_def get_set_u16)
    finally show ?thesis .
  qed
  have adv: "advance name i' n = advance name i (Suc n)"
    by (auto simp: advance_def i'_def)
  have units: "\<forall>j<Suc n. get_u16 ?r (off + 2 * j) = lfn_unit sg name (i + j)"
  proof (intro allI impI)
    fix j assume j: "j < Suc n"
    show "get_u16 ?r (off + 2 * j) = lfn_unit sg name (i + j)"
    proof (cases j)
      case 0
      then show ?thesis using first by (simp add: u_def)
    next
      case (Suc m)
      then have "m < n" using j by simp
      with IH have "get_u16 ?r (off + 2 + 2 * m) = lfn_unit sg name (i' + m)" by blast
      moreover have "lfn_unit sg name (i' + m) = lfn_unit sg name (i + Suc m)"
        by (auto simp: lfn_unit_def i'_def)
      ultimately show ?thesis using Suc by (simp add: add.commute add.left_commute)
    qed
  qed
  have others: "\<forall>q. q < off \<or> off + 2 * Suc n \<le> q \<longrightarrow> ?r ! q = e ! q"
  proof (intro allI impI)
    fix q assume q: "q < off \<or> off + 2 * Suc n \<le> q"
    then have "?r ! q = e1 ! q" using pres [of q] by auto
    also have "\<dots> = e ! q" using q by (auto simp: e1_def intro!: nth_set_u16_other)
    finally show "?r ! q = e ! q" .
  qed
  show ?case
    unfolding step using IH adv units others by (simp add: e1_def)
qed


lemma advance_advance: "advance name (advance name i a) b = advance name i (a + b)"
  by (auto simp: advance_def)

lemma upt_13_split: "[b..<b + 13] = [b..<b + 5] @ [b + 5..<b + 11] @ [b + 11..<b + 13]"
proof -
  have "[b..<b + 13] = [b..<b + 5] @ [b + 5..<b + 13]"
    using upt_add_eq_append [of b "b + 5" 8] by (simp add: ac_simps)
  moreover have "[b + 5..<b + 13] = [b + 5..<b + 11] @ [b + 11..<b + 13]"
    using upt_add_eq_append [of "b + 5" "b + 11" 2] by (simp add: ac_simps)
  ultimately show ?thesis by simp
qed

lemma map_upt_shift: "map f [b..<b + n] = map (\<lambda>j. f (b + j)) [0..<n]"
proof -
  have "[b..<b + n] = map (\<lambda>j. j + b) [0..<n]"
    by (simp add: map_add_upt add.commute)
  then show ?thesis by (simp add: o_def add.commute)
qed

lemma write_long_entry_spec:
  assumes len: "length e = 32"
  shows "length (fst (write_long_entry sg name k s i e)) = 32
         \<and> snd (write_long_entry sg name k s i e) = advance name i 13
         \<and> long_entry_at sg name k s i (fst (write_long_entry sg name k s i e))"
proof -
  define sq :: u8 where
    "sq = (if s = k - 1 then word_of_nat (s + 1) OR 0x40 else word_of_nat (s + 1))"
  define e5 where
    "e5 = set_u8 (set_u16 (set_u8 (set_u8 (set_u8 e 0 sq) 11 0x0F) 12 0x0) 26 0x0) 13
            (alias_checksum sg name)"
  define r1 where "r1 = fill_units sg name 1 5 e5 i"
  define r2 where "r2 = fill_units sg name 14 6 (fst r1) (snd r1)"
  define r3 where "r3 = fill_units sg name 28 2 (fst r2) (snd r2)"
  have w: "write_long_entry sg name k s i e = r3"
    by (simp add: write_long_entry_def Let_def sq_def e5_def r1_def r2_def r3_def)
  have len5: "length e5 = 32" by (simp add: e5_def len)
  have s1: "length (fst r1) = 32" "snd r1 = advance name i 5"
    "\<And>j. j < 5 \<Longrightarrow> get_u16 (fst r1) (1 + 2 * j) = lfn_unit sg name (i + j)"
    "\<And>q. q < 1 \<or> 11 \<le> q \<Longrightarrow> fst r1 ! q = e5 ! q"
    using fill_units_spec [of 1 5 e5 sg name i] len5 by (auto simp: r1_def)
  have s2: "length (fst r2) = 32" "snd r2 = advance name i 11"
    "\<And>j. j < 6 \<Longrightarrow> get_u16 (fst r2) (14 + 2 * j) = lfn_unit sg name (i + 5 + j)"
    "\<And>q. q < 14 \<or> 26 \<le> q \<Longrightarrow> fst r2 ! q = fst r1 ! q"
    using fill_units_spec [of 14 6 "fst r1" sg name "snd r1"] s1(1,2)
    by (auto simp: r2_def advance_advance lfn_unit_advance)
  have s3: "length (fst r3) = 32" "snd r3 = advance name i 13"
    "\<And>j. j < 2 \<Longrightarrow> get_u16 (fst r3) (28 + 2 * j) = lfn_unit sg name (i + 11 + j)"
    "\<And>q. q < 28 \<or> 32 \<le> q \<Longrightarrow> fst r3 ! q = fst r2 ! q"
    using fill_units_spec [of 28 2 "fst r2" sg name "snd r2"] s2(1,2)
    by (auto simp: r3_def advance_advance lfn_unit_advance)
  have low: "\<And>q. q < 1 \<or> (11 \<le> q \<and> q < 14) \<or> (26 \<le> q \<and> q < 28) \<Longrightarrow> fst r3 ! q = e5 ! q"
    using s1(4) s2(4) s3(4) by auto
  have b0: "fst r3 ! 0 = sq" and b11: "fst r3 ! 11 = 0x0F" and b12: "fst r3 ! 12 = 0"
    and b13: "fst r3 ! 13 = alias_checksum sg name" and b26: "fst r3 ! 26 = 0" and b27: "fst r3 ! 27 = 0"
    using len by (simp_all add: low e5_def set_u8_def set_u16_def)
  have first: "map (le_name_first (fst r3)) [0..<5] = map (lfn_unit sg name) [i..<i + 5]"
    unfolding map_upt_shift
  proof (rule map_cong [OF refl])
    fix j assume "j \<in> set [0..<5]"
    then have j: "j < 5" by simp
    have "get_u16 (fst r3) (1 + 2 * j) = get_u16 (fst r1) (1 + 2 * j)"
      by (rule get_u16_cong) (use j s2(4) s3(4) in auto)
    then show "le_name_first (fst r3) j = lfn_unit sg name (i + j)"
      using s1(3) [OF j] by (simp add: le_name_first_def)
  qed
  have second: "map (le_name_second (fst r3)) [0..<6] = map (lfn_unit sg name) [i + 5..<i + 5 + 6]"
    unfolding map_upt_shift
  proof (rule map_cong [OF refl])
    fix j assume "j \<in> set [0..<6]"
    then have j: "j < 6" by simp
    have "get_u16 (fst r3) (14 + 2 * j) = get_u16 (fst r2) (14 + 2 * j)"
      by (rule get_u16_cong) (use j s3(4) in auto)
    then show "le_name_second (fst r3) j = lfn_unit sg name (i + 5 + j)"
      using s2(3) [OF j] by (simp add: le_name_second_def)
  qed
  have third: "map (le_name_third (fst r3)) [0..<2] = map (lfn_unit sg name) [i + 11..<i + 11 + 2]"
    unfolding map_upt_shift
  proof (rule map_cong [OF refl])
    fix j assume "j \<in> set [0..<2]"
    then have j: "j < 2" by simp
    show "le_name_third (fst r3) j = lfn_unit sg name (i + 11 + j)"
      using s3(3) [OF j] by (simp add: le_name_third_def)
  qed
  have units: "le_units (fst r3) = map (lfn_unit sg name) [i..<i + 13]"
    unfolding le_units_def first second third upt_13_split [of i] by (simp add: ac_simps)
  have "long_entry_at sg name k s i (fst r3)"
    unfolding long_entry_at_def le_sequence_number_def le_attrib_def le_reserved_def
      le_starting_cluster_def le_alias_checksum_def get_u8_def get_u16_def
    using b0 b11 b12 b13 b26 b27 units by (simp add: sq_def)
  then show ?thesis using s3(1,2) by (simp add: w)
qed

lemma lfn_sequences_eq:
  assumes "1 \<le> len" "len < 2 ^ 64"
  shows "lfn_sequences len = (len - 1) div 11 + 1"
proof -
  have u: "unat (word_of_nat len :: u64) = len"
    using assms by (simp add: unat_of_nat)
  then have nz: "(word_of_nat len :: u64) \<noteq> 0" using assms by auto
  have m: "unat (word_of_nat len - 1 :: u64) = len - 1"
    using unat_minus_one [OF nz] u by simp
  have d: "unat ((word_of_nat len - 1 :: u64) div 11) = (len - 1) div 11"
    by (simp add: unat_div m)
  have "(len - 1) div 11 + 1 < 2 ^ 64" using assms by simp
  then have "unat ((word_of_nat len - 1 :: u64) div 11) + unat (1 :: u64) < 2 ^ LENGTH(64)"
    using d by simp
  then have "unat ((word_of_nat len - 1 :: u64) div 11 + 1) = (len - 1) div 11 + 1"
    using d by (simp only: unat_add_lem [THEN iffD1]) simp
  then show ?thesis by (simp add: lfn_sequences_def)
qed

lemma long_entry_at_base:
  assumes "\<And>j. j < 13 \<Longrightarrow> lfn_unit sg name (b1 + j) = lfn_unit sg name (b2 + j)"
  shows "long_entry_at sg name k s b1 e = long_entry_at sg name k s b2 e"
proof -
  have "map (lfn_unit sg name) [b1..<b1 + 13] = map (lfn_unit sg name) [b2..<b2 + 13]"
    unfolding map_upt_shift by (rule map_cong [OF refl]) (simp add: assms)
  then show ?thesis by (simp add: long_entry_at_def)
qed

lemma lfn_loop_spec:
  "n = k - seq \<Longrightarrow> seq \<le> k \<Longrightarrow> p + n \<le> length b \<Longrightarrow> \<forall>e \<in> set b. length e = 32 \<Longrightarrow>
     \<exists>b'. lfn_loop sg name k b p seq i = Inr (b', p + n) \<and> length b' = length b
          \<and> (\<forall>e \<in> set b'. length e = 32)
          \<and> (\<forall>q. q < p \<or> p + n \<le> q \<longrightarrow> b' ! q = b ! q)
          \<and> (\<forall>t<n. long_entry_at sg name k (seq + t) (i + 13 * t) (b' ! (p + t)))"
proof (induction n arbitrary: b p seq i)
  case 0
  then have "lfn_loop sg name k b p seq i = Inr (b, p)"
    by (subst lfn_loop.simps) simp
  with 0 show ?case by simp
next
  case (Suc n)
  from Suc.prems have lt: "seq < k" and p_lt: "p < length b" by auto
  define r where "r = write_long_entry sg name k seq i (b ! p)"
  define b1 where "b1 = b[p := fst r]"
  have slot: "length (b ! p) = 32" using Suc.prems(4) p_lt by simp
  note w = write_long_entry_spec [OF slot, of sg name k seq i, folded r_def]
  have step: "lfn_loop sg name k b p seq i = lfn_loop sg name k b1 (p + 1) (seq + 1) (snd r)"
    using lt p_lt by (subst lfn_loop.simps) (simp add: Let_def r_def b1_def)
  have slots1: "\<forall>e \<in> set b1. length e = 32"
    using Suc.prems(4) w by (auto simp: b1_def dest!: set_update_subset_insert [THEN subsetD])
  have "n = k - (seq + 1)" "seq + 1 \<le> k" "p + 1 + n \<le> length b1"
    using Suc.prems by (auto simp: b1_def)
  from Suc.IH [OF this slots1, of "snd r"] obtain b' where
    res: "lfn_loop sg name k b1 (p + 1) (seq + 1) (snd r) = Inr (b', p + 1 + n)"
    and len: "length b' = length b1" and slots: "\<forall>e \<in> set b'. length e = 32"
    and pres: "\<And>q. q < p + 1 \<or> p + 1 + n \<le> q \<Longrightarrow> b' ! q = b1 ! q"
    and ents: "\<And>t. t < n \<Longrightarrow> long_entry_at sg name k (seq + 1 + t) (snd r + 13 * t) (b' ! (p + 1 + t))"
    by blast
  have here: "b' ! p = fst r" using pres [of p] p_lt by (simp add: b1_def)
  have all: "\<forall>t<Suc n. long_entry_at sg name k (seq + t) (i + 13 * t) (b' ! (p + t))"
  proof (intro allI impI)
    fix t assume t: "t < Suc n"
    show "long_entry_at sg name k (seq + t) (i + 13 * t) (b' ! (p + t))"
    proof (cases t)
      case 0
      then show ?thesis using w here by simp
    next
      case (Suc m)
      then have "m < n" using t by simp
      from ents [OF this]
      have "long_entry_at sg name k (seq + 1 + m) (advance name i 13 + 13 * m) (b' ! (p + 1 + m))"
        using w by simp
      moreover have "\<And>j. lfn_unit sg name (advance name i 13 + 13 * m + j)
                        = lfn_unit sg name (i + 13 * Suc m + j)"
      proof -
        fix j
        have "lfn_unit sg name (advance name i 13 + (13 * m + j)) = lfn_unit sg name (i + 13 + (13 * m + j))"
          by (rule lfn_unit_advance)
        then show "lfn_unit sg name (advance name i 13 + 13 * m + j)
                     = lfn_unit sg name (i + 13 * Suc m + j)"
          by (simp add: add.assoc add.left_commute)
      qed
      ultimately show ?thesis
        using long_entry_at_base [of sg name "advance name i 13 + 13 * m" "i + 13 * Suc m"]
          Suc by simp
    qed
  qed
  have others: "\<forall>q. q < p \<or> p + Suc n \<le> q \<longrightarrow> b' ! q = b ! q"
  proof (intro allI impI)
    fix q assume q: "q < p \<or> p + Suc n \<le> q"
    then have "b' ! q = b1 ! q" using pres [of q] by auto
    also have "\<dots> = b ! q" using q by (auto simp: b1_def)
    finally show "b' ! q = b ! q" .
  qed
  show ?case
    using step res len slots all others by (simp add: b1_def)
qed

text \<open>
  C4.  Claim: for a name of length \<open>len \<ge> 1\<close> exactly \<open>\<lceil>len / 13\<rceil>\<close> long entries are written,
  with ascending sequence numbers, and the exhausted code-unit slots are padded with
  \<open>0xFFFF\<close>.
  The code pads with \<open>0x00FF\<close>, the value the reader \<open>files\<close> tests for
  (\<open>name_first[j] == 0x0 || name_first[j] == 0xFF\<close>).  For the name \<open>a\<close>, written at slot 0
  of the fresh directory, one long entry is written, as \<open>\<lceil>1 / 13\<rceil> = 1\<close> says, with the
  sequence number \<open>0x41\<close>; its 13 code units are \<open>0x0061\<close> and twelve times \<open>0x00FF\<close>.
\<close>

theorem C4_counterexample:
  "map_sum id snd (init_entry False True fresh_directory (Some 0) name_a 3) = Inr 1
   \<and> (length name_a + 12) div 13 = 1
   \<and> le_sequence_number (projr (init_file_entry False True fresh_directory (Some 0) name_a 3) ! 0)
       = 0x41
   \<and> le_units (projr (init_file_entry False True fresh_directory (Some 0) name_a 3) ! 0)
       = 0x0061 # replicate 12 0x00FF
   \<and> le_units (projr (init_directory_entry False True fresh_directory (Some 0) name_a 3) ! 0)
       = 0x0061 # replicate 12 0x00FF"
  by code_simp

lemma length_copy_name: "length (fst (copy_name name i e)) = length e"
proof (induction name i e rule: copy_name.induct)
  case (1 name i e)
  show ?case
  proof (cases "i < 11 \<and> i < length name")
    case True
    then show ?thesis using "1.IH" by (subst copy_name.simps) simp
  next
    case False
    then show ?thesis by (subst copy_name.simps) auto
  qed
qed

lemma length_pad_name: "length (pad_name i e) = length e"
proof (induction i e rule: pad_name.induct)
  case (1 i e)
  show ?case
  proof (cases "i < 11")
    case True
    then show ?thesis using "1.IH" by (subst pad_name.simps) simp
  next
    case False
    then show ?thesis by (subst pad_name.simps) simp
  qed
qed

lemma length_set_u32 [simp]: "length (set_u32 e off v) = length e"
  by (simp add: set_u32_def)

lemma length_write_short_entry: "length (write_short_entry name cluster e) = length e"
  by (simp add: write_short_entry_def Let_def length_pad_name length_copy_name)

lemma ce_attrib_set: "11 < length e \<Longrightarrow> ce_attrib (set_u8 e 11 v) = v"
  by (simp add: ce_attrib_def get_u8_def set_u8_def)

lemma copy_name_spec:
  "i \<le> 11 \<Longrightarrow> length (fst (copy_name name i e)) = length e
     \<and> snd (copy_name name i e) = max i (min 11 (length name))
     \<and> (\<forall>j < length e. fst (copy_name name i e) ! j
           = (if i \<le> j \<and> j < min 11 (length name) then name ! j else e ! j))"
proof (induction name i e rule: copy_name.induct)
  case (1 name i e)
  show ?case
  proof (cases "i < 11 \<and> i < length name")
    case True
    then have eq: "copy_name name i e = copy_name name (i + 1) (e[i := name ! i])"
      by (subst copy_name.simps) (simp add: set_u8_def)
    have "i + 1 \<le> 11" using True by simp
    from "1.IH" [OF True this]
    have l: "length (fst (copy_name name (i + 1) (e[i := name ! i]))) = length e"
      and s: "snd (copy_name name (i + 1) (e[i := name ! i])) = max (i + 1) (min 11 (length name))"
      and c: "\<And>j. j < length e \<Longrightarrow> fst (copy_name name (i + 1) (e[i := name ! i])) ! j
           = (if i + 1 \<le> j \<and> j < min 11 (length name) then name ! j else (e[i := name ! i]) ! j)"
      by (simp_all add: set_u8_def)
    have "\<forall>j < length e. fst (copy_name name i e) ! j
           = (if i \<le> j \<and> j < min 11 (length name) then name ! j else e ! j)"
    proof (intro allI impI)
      fix j assume j: "j < length e"
      show "fst (copy_name name i e) ! j
           = (if i \<le> j \<and> j < min 11 (length name) then name ! j else e ! j)"
      proof (cases "j = i")
        case True
        with c [OF j] j \<open>i < 11 \<and> i < length name\<close> show ?thesis by (simp add: eq)
      next
        case False
        then have "(i + 1 \<le> j) = (i \<le> j)" by arith
        with c [OF j] j False show ?thesis by (simp add: eq)
      qed
    qed
    moreover have "max (i + 1) (min 11 (length name)) = max i (min 11 (length name))"
      using True by simp
    ultimately show ?thesis using l s by (simp add: eq)
  next
    case False
    then have "copy_name name i e = (e, i)" by (subst copy_name.simps) auto
    with False "1.prems" show ?thesis by auto
  qed
qed

lemma pad_name_spec:
  "length (pad_name i e) = length e
     \<and> (\<forall>j < length e. pad_name i e ! j = (if i \<le> j \<and> j < 11 then 0x20 else e ! j))"
proof (induction i e rule: pad_name.induct)
  case (1 i e)
  show ?case
  proof (cases "i < 11")
    case True
    then have eq: "pad_name i e = pad_name (i + 1) (e[i := 0x20])"
      by (subst pad_name.simps) (simp add: set_u8_def)
    from "1.IH" [OF True]
    have l: "length (pad_name (i + 1) (e[i := 0x20])) = length e"
      and c: "\<And>j. j < length e \<Longrightarrow> pad_name (i + 1) (e[i := 0x20]) ! j
                = (if i + 1 \<le> j \<and> j < 11 then 0x20 else (e[i := 0x20]) ! j)"
      by (simp_all add: set_u8_def)
    have "\<forall>j < length e. pad_name i e ! j = (if i \<le> j \<and> j < 11 then 0x20 else e ! j)"
    proof (intro allI impI)
      fix j assume j: "j < length e"
      show "pad_name i e ! j = (if i \<le> j \<and> j < 11 then 0x20 else e ! j)"
      proof (cases "j = i")
        case True
        with c [OF j] j \<open>i < 11\<close> show ?thesis by (simp add: eq)
      next
        case False
        then have "(i + 1 \<le> j) = (i \<le> j)" by arith
        with c [OF j] j False show ?thesis by (simp add: eq)
      qed
    qed
    with l show ?thesis by (simp add: eq)
  next
    case False
    then have "pad_name i e = e" by (subst pad_name.simps) simp
    with False show ?thesis by auto
  qed
qed

lemma ce_name_write_short_entry:
  assumes len: "length e = 32" and j: "j < 11"
  shows "ce_name (write_short_entry name cluster e) j = (if j < length name then name ! j else 0x20)"
proof -
  define r where "r = copy_name name 0 e"
  define e1 where "e1 = pad_name (snd r) (fst r)"
  from copy_name_spec [of 0 name e]
  have lr: "length (fst r) = 32" and sr: "snd r = min 11 (length name)"
    and cp: "\<And>q. q < 32 \<Longrightarrow> fst r ! q = (if q < min 11 (length name) then name ! q else e ! q)"
    using len by (simp_all add: r_def)
  from pad_name_spec [of "snd r" "fst r"]
  have l1: "length e1 = 32"
    and pd: "\<And>q. q < 32 \<Longrightarrow> e1 ! q = (if snd r \<le> q \<and> q < 11 then 0x20 else fst r ! q)"
    using lr by (simp_all add: e1_def)
  have field: "e1 ! j = (if j < length name then name ! j else 0x20)"
    using j pd [of j] cp [of j] sr by auto
  have "write_short_entry name cluster e ! j = e1 ! j"
    using j l1
    by (simp add: write_short_entry_def Let_def r_def [symmetric] e1_def [symmetric]
          set_u8_def set_u16_def set_u32_def)
  with field show ?thesis by (simp add: ce_name_def get_u8_def)
qed

lemma init_entry_long:
  assumes len: "1 \<le> length name" "length name < 2 ^ 64"
    and k: "k = (length name - 1) div 11 + 1"
    and slots: "\<forall>e \<in> set b. length e = 32"
    and room: "p + k < length b"
  shows "\<exists>b'. init_entry sg True b (Some p) name cluster = Inr (b', p + k)
          \<and> length b' = length b \<and> length (b' ! (p + k)) = 32
          \<and> (\<forall>s<k. long_entry_at sg name k s (13 * s) (b' ! (p + s)))
          \<and> (\<forall>q. q < p \<or> p + k < q \<longrightarrow> b' ! q = b ! q)
          \<and> (\<forall>j<11. ce_name (b' ! (p + k)) j = (if j < length name then name ! j else 0x20))"
proof -
  have seqs: "lfn_sequences (length name) = k"
    using lfn_sequences_eq [OF len] k by simp
  have "k = k - 0" "0 \<le> k" "p + k \<le> length b" using room by auto
  from lfn_loop_spec [OF this slots, of sg name 0] obtain b1 where
    loop: "lfn_loop sg name k b p 0 0 = Inr (b1, p + k)" and l1: "length b1 = length b"
    and s1: "\<forall>e \<in> set b1. length e = 32"
    and pres: "\<And>q. q < p \<or> p + k \<le> q \<Longrightarrow> b1 ! q = b ! q"
    and ents: "\<And>t. t < k \<Longrightarrow> long_entry_at sg name k t (13 * t) (b1 ! (p + t))"
    by auto
  define b' where "b' = b1[p + k := write_short_entry name cluster (b1 ! (p + k))]"
  have res: "init_entry sg True b (Some p) name cluster = Inr (b', p + k)"
    using room l1 by (simp add: init_entry_def seqs loop Let_def b'_def)
  have old: "length (b1 ! (p + k)) = 32" using s1 room l1 by simp
  then have sde: "length (b' ! (p + k)) = 32"
    using room l1 by (simp add: b'_def length_write_short_entry)
  have "\<forall>s<k. long_entry_at sg name k s (13 * s) (b' ! (p + s))"
    using ents by (simp add: b'_def)
  moreover have "\<forall>q. q < p \<or> p + k < q \<longrightarrow> b' ! q = b ! q"
    using pres by (auto simp: b'_def)
  moreover have "\<forall>j<11. ce_name (b' ! (p + k)) j = (if j < length name then name ! j else 0x20)"
    using room l1 ce_name_write_short_entry [OF old] by (simp add: b'_def)
  ultimately show ?thesis using res sde l1 by (simp add: b'_def)
qed

lemma bit_6_of_small:
  assumes "n < 64"
  shows "\<not> bit (word_of_nat n :: u8) 6"
proof -
  have "\<not> bit n 6" using assms by (simp add: bit_iff_odd)
  then show ?thesis unfolding bit_of_nat_iff by simp
qed

lemma bit_6_of_0x40: "bit (w OR 0x40 :: u8) 6"
proof -
  have "bit (0x40 :: u8) 6" by (simp add: bit_iff_odd_drop_bit)
  then show ?thesis by (simp add: bit_or_iff)
qed

lemma sequence_number_bit:
  assumes "long_entry_at sg name k s base e" "s < k" "k \<le> 63"
  shows "bit (le_sequence_number e) 6 \<longleftrightarrow> s = k - 1"
proof -
  define x :: u8 where "x = word_of_nat (s + 1)"
  have eq: "le_sequence_number e = (if s = k - 1 then x OR 0x40 else x)"
    using assms(1) unfolding long_entry_at_def x_def by (rule conjunct1)
  have "s + 1 < 64" using assms(2,3) by simp
  then have "\<not> bit x 6" unfolding x_def by (rule bit_6_of_small)
  then show ?thesis using eq bit_6_of_0x40 [of x] by (cases "s = k - 1") simp_all
qed

text \<open>
  C4 as amended: for every name of length \<open>len\<close> from 1 (below \<open>2^64\<close>) and every buffer of
  32-byte slots with room for the entries at \<open>p\<close>, the long entries that
  \<open>init_directory_entry<true>\<close> and \<open>init_file_entry<true>\<close> write are in ascending sequence in
  the slots from \<open>p\<close> on: entry \<open>s\<close> (from 0) has sequence number \<open>s + 1\<close>, with \<open>0x40\<close>
  or-ed in on the last, attribute \<open>0x0F\<close>, zero \<open>reserved\<close> and \<open>starting_cluster\<close>, the alias
  checksum, and as its 13 code units the bytes of the name at the positions \<open>13 * s\<close> to
  \<open>13 * s + 12\<close>, each converted to \<open>uint16_t\<close>, with \<open>0x00FF\<close> for the positions behind the
  end of the name.  The short entry follows the last long entry and no other slot changes.
  For names of up to 693 bytes bit \<open>0x40\<close> of the sequence number is set on the last long
  entry only.

  How many long entries there are is no part of the amended claim.  The theorem is stated for
  the number of times the loop of \<open>init_entry\<close> runs, \<open>k = (len - 1) / 11 + 1\<close>.  That is
  \<open>\<lceil>len / 13\<rceil>\<close> for some lengths only, and where it is more the name that \<open>files\<close> reads back
  is not the name written (C7).
\<close>

theorem C4_long_entries_written:
  assumes len: "1 \<le> length name" "length name < 2 ^ 64"
    and k: "k = (length name - 1) div 11 + 1"
    and slots: "\<forall>e \<in> set b. length e = 32"
    and room: "p + k < length b"
  shows "\<exists>d f. init_directory_entry sg True b (Some p) name cluster = Inr d
           \<and> init_file_entry sg True b (Some p) name cluster = Inr f
           \<and> length d = length b \<and> length f = length b
           \<and> (\<forall>s<k. long_entry_at sg name k s (13 * s) (d ! (p + s))
                   \<and> long_entry_at sg name k s (13 * s) (f ! (p + s)))
           \<and> ce_attrib (d ! (p + k)) = 0x10 \<and> ce_attrib (f ! (p + k)) = 0x0
           \<and> (\<forall>q. q < p \<or> p + k < q \<longrightarrow> d ! q = b ! q \<and> f ! q = b ! q)
           \<and> (length name \<le> 693 \<longrightarrow>
                (\<forall>s<k. (bit (le_sequence_number (d ! (p + s))) 6 \<longleftrightarrow> s = k - 1)
                      \<and> (bit (le_sequence_number (f ! (p + s))) 6 \<longleftrightarrow> s = k - 1)))"
proof -
  from init_entry_long [OF len k slots room, of sg cluster] obtain b' where
    res: "init_entry sg True b (Some p) name cluster = Inr (b', p + k)"
    and l: "length b' = length b" and sde: "length (b' ! (p + k)) = 32"
    and ents: "\<And>s. s < k \<Longrightarrow> long_entry_at sg name k s (13 * s) (b' ! (p + s))"
    and pres: "\<And>q. q < p \<or> p + k < q \<Longrightarrow> b' ! q = b ! q"
    by blast
  define d where "d = b'[p + k := set_u8 (b' ! (p + k)) 11 0x10]"
  define f where "f = b'[p + k := set_u8 (b' ! (p + k)) 11 0x0]"
  have rd: "init_directory_entry sg True b (Some p) name cluster = Inr d"
    by (simp add: init_directory_entry_def res d_def)
  have rf: "init_file_entry sg True b (Some p) name cluster = Inr f"
    by (simp add: init_file_entry_def res f_def)
  have ld: "length d = length b" "length f = length b" by (simp_all add: d_def f_def l)
  have e: "\<And>s. s < k \<Longrightarrow> long_entry_at sg name k s (13 * s) (d ! (p + s))
                      \<and> long_entry_at sg name k s (13 * s) (f ! (p + s))"
    using ents by (simp add: d_def f_def)
  have a: "ce_attrib (d ! (p + k)) = 0x10" "ce_attrib (f ! (p + k)) = 0x0"
    using room l sde by (simp_all add: d_def f_def ce_attrib_set)
  have o: "\<And>q. q < p \<or> p + k < q \<Longrightarrow> d ! q = b ! q \<and> f ! q = b ! q"
    using pres by (auto simp: d_def f_def)
  have b6: "length name \<le> 693 \<longrightarrow>
              (\<forall>s<k. (bit (le_sequence_number (d ! (p + s))) 6 \<longleftrightarrow> s = k - 1)
                    \<and> (bit (le_sequence_number (f ! (p + s))) 6 \<longleftrightarrow> s = k - 1))"
  proof (intro impI allI)
    fix s assume n: "length name \<le> 693" and s: "s < k"
    have "k \<le> 63" using n k by simp
    with e [OF s] s show "(bit (le_sequence_number (d ! (p + s))) 6 \<longleftrightarrow> s = k - 1)
                    \<and> (bit (le_sequence_number (f ! (p + s))) 6 \<longleftrightarrow> s = k - 1)"
      using sequence_number_bit by blast
  qed
  show ?thesis
    using rd rf ld e a o b6 by blast
qed

theorem C4_long_entries_written_witness:
  "\<exists>d f. init_directory_entry False True fresh_directory (Some 0) name_12 3 = Inr d
         \<and> init_file_entry False True fresh_directory (Some 0) name_12 3 = Inr f
         \<and> long_entry_at False name_12 2 0 0 (d ! 0) \<and> long_entry_at False name_12 2 1 13 (d ! 1)
         \<and> long_entry_at False name_12 2 0 0 (f ! 0) \<and> long_entry_at False name_12 2 1 13 (f ! 1)
         \<and> ce_attrib (d ! 2) = 0x10 \<and> ce_attrib (f ! 2) = 0x0
         \<and> \<not> bit (le_sequence_number (d ! 0)) 6 \<and> bit (le_sequence_number (d ! 1)) 6"
proof -
  have len: "1 \<le> length name_12" "length name_12 < 2 ^ 64" "length name_12 \<le> 693"
    by (simp_all add: name_12_def)
  have k: "(2 :: nat) = (length name_12 - 1) div 11 + 1"
    by (simp add: name_12_def)
  have slots: "\<forall>e \<in> set fresh_directory. length e = 32"
    by (simp add: fresh_directory_def)
  have room: "0 + 2 < length fresh_directory"
    by (simp add: fresh_directory_def)
  from C4_long_entries_written [OF len(1,2) k slots room, of False 3] len(3) obtain d f where
    "init_directory_entry False True fresh_directory (Some 0) name_12 3 = Inr d"
    "init_file_entry False True fresh_directory (Some 0) name_12 3 = Inr f"
    and e: "\<forall>s<2. long_entry_at False name_12 2 s (13 * s) (d ! (0 + s))
                  \<and> long_entry_at False name_12 2 s (13 * s) (f ! (0 + s))"
    and a: "ce_attrib (d ! (0 + 2)) = 0x10" "ce_attrib (f ! (0 + 2)) = 0x0"
    and b: "\<forall>s<2. (bit (le_sequence_number (d ! (0 + s))) 6 \<longleftrightarrow> s = 2 - 1)
                  \<and> (bit (le_sequence_number (f ! (0 + s))) 6 \<longleftrightarrow> s = 2 - 1)"
    by blast
  moreover from e have "long_entry_at False name_12 2 0 0 (d ! 0)"
    "long_entry_at False name_12 2 1 13 (d ! 1)" "long_entry_at False name_12 2 0 0 (f ! 0)"
    "long_entry_at False name_12 2 1 13 (f ! 1)"
    using e [rule_format, of 0] e [rule_format, of 1] by simp_all
  moreover from b have "\<not> bit (le_sequence_number (d ! 0)) 6" "bit (le_sequence_number (d ! 1)) 6"
    using b [rule_format, of 0] b [rule_format, of 1] by simp_all
  ultimately show ?thesis
    by (intro exI [where x = d] exI [where x = f]) (simp add: numeral_2_eq_2)
qed

subsection \<open>The alias checksum\<close>

lemma drop_bit_uint_u8: "word_of_int (drop_bit n (uint (s :: u8))) = (drop_bit n s :: u8)"
  by (rule bit_word_eqI) (auto simp: bit_simps)

lemma and_1_uint_u8: "(uint (s :: u8) AND 1 \<noteq> 0) \<longleftrightarrow> (s AND 1 \<noteq> 0)"
  by (metis uint_and uint_1 uint_0_iff)

lemma checksum_step_unsigned: "checksum_step False s v = rotate_right_8 s + v"
  by (simp add: checksum_step_def rotate_right_8_def char_to_int_def drop_bit_uint_u8
        and_1_uint_u8)

lemma checksum_loop_unsigned:
  "c \<le> 11 \<Longrightarrow> checksum_loop False name c s
     = foldl (\<lambda>s b. rotate_right_8 s + b) s
         (map (\<lambda>j. if j < length name then name ! j else 0x20) [c..<11])"
proof (induction "11 - c" arbitrary: c s)
  case 0
  then have "c = 11" by simp
  then show ?case by (subst checksum_loop.simps) simp
next
  case (Suc n)
  then have lt: "c < 11" and n: "n = 11 - (c + 1)" and le: "c + 1 \<le> 11" by simp_all
  have split: "[c..<11] = c # [c + 1..<11]" using lt by (simp add: upt_conv_Cons)
  show ?case
    using Suc.hyps(1) [OF n le] lt
    by (subst checksum_loop.simps) (simp add: split checksum_step_unsigned)
qed

lemma name_field:
  "map (\<lambda>j. if j < length name then name ! j else 0x20) [0..<11]
     = take 11 name @ replicate (11 - length name) (0x20 :: u8)"
  by (rule nth_equalityI) (auto simp: nth_append)

lemma alias_checksum_unsigned:
  "alias_checksum False name
     = reference_checksum (take 11 name @ replicate (11 - length name) 0x20)"
  by (simp add: alias_checksum_def reference_checksum_def checksum_loop_unsigned name_field)

lemma ce_name_set_attrib: "j < 11 \<Longrightarrow> ce_name (set_u8 e 11 v) j = ce_name e j"
  by (simp add: ce_name_def get_u8_def set_u8_def)

lemma le_alias_checksum_set_attrib: "le_alias_checksum (set_u8 e 11 v) = le_alias_checksum e"
  by (simp add: le_alias_checksum_def get_u8_def set_u8_def)

lemma entry_unused_signed: "\<not> entry_unused True e"
proof -
  have "sint (ce_name e 0) < 2 ^ (8 - 1)" using sint_lt [of "ce_name e 0"] by simp
  then show ?thesis by (simp add: entry_unused_def char_to_int_def)
qed

lemma alias_checksum_signed_char:
  "alias_checksum True name_a = 0x77
   \<and> reference_checksum (take 11 name_a @ replicate (11 - length name_a) 0x20) = 0x88"
  by code_simp

text \<open>
  C5.  Claim: the \<open>alias_checksum\<close> stored in each long entry equals the reference
  rotate-and-add computation over the 11-byte, space-padded name field of the short entry, on
  an unsigned 8-bit value.
  The code keeps the sum in a plain \<open>char\<close> and computes each step on the promoted
  \<open>int\<close>.  The driver compares and assigns \<open>name[0]\<close>, a \<open>char\<close>, with \<open>0xE5\<close>
  (\<open>entry_unused\<close>, \<open>entry_used\<close>, \<open>find_free_entry\<close>, \<open>mkdir\<close>): with a signed \<open>char\<close> no
  entry is ever unused (\<open>entry_unused_signed\<close>), so the source is written for a build where
  \<open>char\<close> is unsigned, and there the conversion of the sum back to \<open>char\<close> is the arithmetic
  modulo \<open>2^8\<close> of the reference.  (With a signed \<open>char\<close> the shift of the promoted negative
  sum keeps the sign bit and the two computations differ, \<open>alias_checksum_signed_char\<close>.)
  With \<open>char\<close> unsigned, for every name of length \<open>len\<close> from 1 (below \<open>2^64\<close>) and every
  buffer of 32-byte slots with room for the entries at \<open>p\<close>, \<open>init_directory_entry<true>\<close>
  and \<open>init_file_entry<true>\<close> return, the name field of the short entry they write is the
  first 11 bytes of the name padded with spaces, and the \<open>alias_checksum\<close> of every long
  entry they write (the slots before it, of attribute \<open>0x0F\<close>) equals the reference checksum
  over the 11 bytes of that field.
\<close>

theorem C5_alias_checksum_is_reference:
  assumes len: "1 \<le> length name" "length name < 2 ^ 64"
    and k: "k = (length name - 1) div 11 + 1"
    and slots: "\<forall>e \<in> set b. length e = 32"
    and room: "p + k < length b"
  shows "\<exists>d f. init_directory_entry False True b (Some p) name cluster = Inr d
           \<and> init_file_entry False True b (Some p) name cluster = Inr f
           \<and> map (ce_name (d ! (p + k))) [0..<11]
               = take 11 name @ replicate (11 - length name) 0x20
           \<and> map (ce_name (f ! (p + k))) [0..<11]
               = take 11 name @ replicate (11 - length name) 0x20
           \<and> (\<forall>s<k. le_attrib (d ! (p + s)) = 0x0F \<and> le_attrib (f ! (p + s)) = 0x0F
                   \<and> le_alias_checksum (d ! (p + s))
                       = reference_checksum (map (ce_name (d ! (p + k))) [0..<11])
                   \<and> le_alias_checksum (f ! (p + s))
                       = reference_checksum (map (ce_name (f ! (p + k))) [0..<11]))"
proof -
  from init_entry_long [OF len k slots room, of False cluster] obtain b' where
    res: "init_entry False True b (Some p) name cluster = Inr (b', p + k)"
    and l: "length b' = length b"
    and ents: "\<And>s. s < k \<Longrightarrow> long_entry_at False name k s (13 * s) (b' ! (p + s))"
    and nm: "\<And>j. j < 11 \<Longrightarrow> ce_name (b' ! (p + k)) j = (if j < length name then name ! j else 0x20)"
    by blast
  define d where "d = b'[p + k := set_u8 (b' ! (p + k)) 11 0x10]"
  define f where "f = b'[p + k := set_u8 (b' ! (p + k)) 11 0x0]"
  have rd: "init_directory_entry False True b (Some p) name cluster = Inr d"
    by (simp add: init_directory_entry_def res d_def)
  have rf: "init_file_entry False True b (Some p) name cluster = Inr f"
    by (simp add: init_file_entry_def res f_def)
  have "map (ce_name (b' ! (p + k))) [0..<11]
          = map (\<lambda>j. if j < length name then name ! j else 0x20) [0..<11]"
    using nm by simp
  then have field: "map (ce_name (b' ! (p + k))) [0..<11]
                      = take 11 name @ replicate (11 - length name) 0x20"
    by (simp only: name_field)
  have fd: "map (ce_name (d ! (p + k))) [0..<11] = map (ce_name (b' ! (p + k))) [0..<11]"
    and ff: "map (ce_name (f ! (p + k))) [0..<11] = map (ce_name (b' ! (p + k))) [0..<11]"
    using room l by (simp_all add: d_def f_def ce_name_set_attrib)
  have sum: "\<And>s. s < k \<Longrightarrow> le_attrib (d ! (p + s)) = 0x0F \<and> le_attrib (f ! (p + s)) = 0x0F
                          \<and> le_alias_checksum (d ! (p + s)) = alias_checksum False name
                          \<and> le_alias_checksum (f ! (p + s)) = alias_checksum False name"
    using ents by (simp add: d_def f_def long_entry_at_def)
  show ?thesis
    using rd rf fd ff field sum by (simp add: alias_checksum_unsigned)
qed

theorem C5_alias_checksum_is_reference_witness:
  "\<exists>d f. init_directory_entry False True fresh_directory (Some 0) name_12 3 = Inr d
         \<and> init_file_entry False True fresh_directory (Some 0) name_12 3 = Inr f
         \<and> map (ce_name (d ! 2)) [0..<11] = take 11 name_12
         \<and> map (ce_name (f ! 2)) [0..<11] = take 11 name_12
         \<and> le_attrib (d ! 0) = 0x0F \<and> le_attrib (d ! 1) = 0x0F
         \<and> le_alias_checksum (d ! 0) = reference_checksum (map (ce_name (d ! 2)) [0..<11])
         \<and> le_alias_checksum (d ! 1) = reference_checksum (map (ce_name (d ! 2)) [0..<11])
         \<and> le_alias_checksum (f ! 0) = reference_checksum (map (ce_name (f ! 2)) [0..<11])
         \<and> le_alias_checksum (f ! 1) = reference_checksum (map (ce_name (f ! 2)) [0..<11])"
proof -
  have len: "1 \<le> length name_12" "length name_12 < 2 ^ 64"
    by (simp_all add: name_12_def)
  have k: "(2 :: nat) = (length name_12 - 1) div 11 + 1"
    by (simp add: name_12_def)
  have slots: "\<forall>e \<in> set fresh_directory. length e = 32"
    by (simp add: fresh_directory_def)
  have room: "0 + 2 < length fresh_directory"
    by (simp add: fresh_directory_def)
  have pad: "11 - length name_12 = 0"
    by (simp add: name_12_def)
  from C5_alias_checksum_is_reference [OF len k slots room, of 3] obtain d f where
    r: "init_directory_entry False True fresh_directory (Some 0) name_12 3 = Inr d"
    "init_file_entry False True fresh_directory (Some 0) name_12 3 = Inr f"
    and n: "map (ce_name (d ! (0 + 2))) [0..<11] = take 11 name_12 @ replicate (11 - length name_12) 0x20"
    "map (ce_name (f ! (0 + 2))) [0..<11] = take 11 name_12 @ replicate (11 - length name_12) 0x20"
    and c: "\<forall>s<2. le_attrib (d ! (0 + s)) = 0x0F \<and> le_attrib (f ! (0 + s)) = 0x0F
                   \<and> le_alias_checksum (d ! (0 + s))
                       = reference_checksum (map (ce_name (d ! (0 + 2))) [0..<11])
                   \<and> le_alias_checksum (f ! (0 + s))
                       = reference_checksum (map (ce_name (f ! (0 + 2))) [0..<11])"
    by blast
  from c [rule_format, of 0] c [rule_format, of 1] n r show ?thesis
    by (intro exI [where x = d] exI [where x = f]) (simp add: pad numeral_2_eq_2)
qed

subsection \<open>\<open>read_file\<close> on the name of a directory\<close>

lemma length_sector_bytes: "length (sector_bytes s) = 512"
  by (simp add: sector_bytes_def)

lemma length_read_dev: "read_dev d lba n = Some b \<Longrightarrow> length b = n * 512"
proof (induction n arbitrary: lba b)
  case 0
  then show ?case by simp
next
  case (Suc n)
  then show ?case
    by (auto simp: length_sector_bytes split: option.splits)
qed

lemma length_read_sectors: "read_sectors w disk lba n = Some b \<Longrightarrow> length b = n * 512"
  by (simp add: read_sectors_def length_read_dev)

lemma listed_make_file: "spc \<noteq> 0 \<Longrightarrow> listed spc (make_file spc e nm)"
  by (simp add: listed_def make_file_def)

lemma decode_long_files: "decode_long e sc = Inr sc' \<Longrightarrow> files sc' = files sc"
  by (auto simp: decode_long_def Let_def split: sum.splits)

lemma short_entry_files:
  "short_entry spc e sc = Inr sc' \<Longrightarrow> \<exists>nm. files sc' = files sc @ [make_file spc e nm]"
  by (auto simp: short_entry_def split: if_splits)

lemma scan_entries_listed:
  "scan_entries sg spc es sc = Inr r \<Longrightarrow> es \<noteq> [] \<longrightarrow> spc \<noteq> 0
     \<Longrightarrow> \<forall>f \<in> set (files sc). listed spc f \<Longrightarrow> \<forall>f \<in> set (files (snd r)). listed spc f"
proof (induction es arbitrary: sc)
  case Nil
  then show ?case by auto
next
  case (Cons e es)
  have nz: "spc \<noteq> 0" using Cons.prems(2) by simp
  then have rest: "es \<noteq> [] \<longrightarrow> spc \<noteq> 0" by simp
  show ?case
  proof (cases "end_of_directory sg e")
    case True
    with Cons.prems show ?thesis by auto
  next
    case eod: False
    show ?thesis
    proof (cases "entry_used sg e")
      case False
      with eod Cons.prems(1) have "scan_entries sg spc es sc = Inr r" by simp
      from Cons.IH [OF this rest Cons.prems(3)] show ?thesis .
    next
      case used: True
      show ?thesis
      proof (cases "is_long_name e")
        case True
        with eod used Cons.prems(1) obtain sc' where
          d: "decode_long e sc = Inr sc'" and s: "scan_entries sg spc es sc' = Inr r"
          by (auto split: sum.splits)
        have "\<forall>f \<in> set (files sc'). listed spc f"
          using Cons.prems(3) decode_long_files [OF d] by simp
        from Cons.IH [OF s rest this] show ?thesis .
      next
        case False
        with eod used Cons.prems(1) obtain sc' where
          d: "short_entry spc e sc = Inr sc'" and s: "scan_entries sg spc es sc' = Inr r"
          by (auto split: sum.splits)
        have "\<forall>f \<in> set (files sc'). listed spc f"
          using Cons.prems(3) short_entry_files [OF d] listed_make_file [OF nz] by auto
        from Cons.IH [OF s rest this] show ?thesis .
      qed
    qed
  qed
qed

lemma entries_of_nonempty: "entries_of (16 * unat spc) b \<noteq> [] \<longrightarrow> spc \<noteq> 0"
  by (cases "spc = 0") auto

lemma files_loop_listed:
  assumes "files_loop sg st w disk c sc = Some y"
  shows "keeps_listed st sc y"
proof (rule files_loop.raw_induct
    [where P = "\<lambda>sg st w disk c sc y. keeps_listed st sc y", OF _ assms])
  fix loop :: "bool \<Rightarrow> fat32_state \<Rightarrow> disks \<Rightarrow> dd \<Rightarrow> u32 \<Rightarrow> scan \<Rightarrow> (fault + disk_file list) option"
  fix sg st w disk c sc y
  assume IH: "\<And>sg st w disk c sc y. loop sg st w disk c sc = Some y \<Longrightarrow> keeps_listed st sc y"
  assume body: "(case fat_bs st of
        None \<Rightarrow> Some (Inl NullDereference)
      | Some bs \<Rightarrow>
     (case cluster_lba st (ucast c) of
        Inl f \<Rightarrow> Some (Inl f)
      | Inr lba \<Rightarrow>
     (case read_sectors w disk lba (unat (sectors_per_cluster bs)) of
        None \<Rightarrow> Some (Inr (files sc))
      | Some b \<Rightarrow>
     (case scan_entries sg (sectors_per_cluster bs)
             (entries_of (16 * unat (sectors_per_cluster bs)) b) sc of
        Inl f \<Rightarrow> Some (Inl f)
      | Inr r \<Rightarrow>
          let end_reached = fst r; sc' = snd r in
          if end_reached then Some (Inr (files sc'))
          else
            (case next_cluster st w disk c of
               Inl f \<Rightarrow> Some (Inl f)
             | Inr c \<Rightarrow>
                 if c = 0 then Some (Inr (files sc'))
                 else if c = 0x0FFFFFF7 then Some (Inr (files sc'))
                 else loop sg st w disk c sc'))))) = Some y"
  show "keeps_listed st sc y"
    unfolding keeps_listed_def
  proof (intro impI allI)
    fix bs fs
    assume bs: "fat_bs st = Some bs"
      and inv: "\<forall>f \<in> set (files sc). listed (sectors_per_cluster bs) f"
      and y: "y = Inr fs"
    from body bs y obtain lba where lba: "cluster_lba st (ucast c) = Inr lba"
      by (auto split: sum.splits)
    show "\<forall>f \<in> set fs. listed (sectors_per_cluster bs) f"
    proof (cases "read_sectors w disk lba (unat (sectors_per_cluster bs))")
      case None
      with body bs y lba inv show ?thesis by auto
    next
      case (Some b)
      with body bs y lba obtain r where
        sc: "scan_entries sg (sectors_per_cluster bs)
               (entries_of (16 * unat (sectors_per_cluster bs)) b) sc = Inr r"
        by (auto split: sum.splits)
      from scan_entries_listed [OF sc entries_of_nonempty inv]
      have inv': "\<forall>f \<in> set (files (snd r)). listed (sectors_per_cluster bs) f" .
      show ?thesis
      proof (cases "fst r")
        case True
        with body bs y lba Some sc inv' show ?thesis by (auto simp: Let_def)
      next
        case False
        with body bs y lba Some sc obtain nc where
          nc: "next_cluster st w disk c = Inr nc"
          by (auto simp: Let_def split: sum.splits)
        show ?thesis
        proof (cases "nc = 0 \<or> nc = 0x0FFFFFF7")
          case True
          with body bs y lba Some sc False nc inv' show ?thesis by (auto simp: Let_def)
        next
          case stop: False
          with body bs y lba Some sc False nc
          have "loop sg st w disk nc (snd r) = Some (Inr fs)"
            by (auto simp: Let_def)
          from IH [OF this] bs inv' show ?thesis unfolding keeps_listed_def by blast
        qed
      qed
    qed
  qed
qed

lemma files_of_cluster_listed:
  "files_of_cluster ev st w disk c = Some (Inr fs) \<Longrightarrow> fat_bs st = Some bs
     \<Longrightarrow> \<forall>f \<in> set fs. listed (sectors_per_cluster bs) f"
  using files_loop_listed [of "char_signed ev" st w disk c _ "Inr fs"]
  by (simp add: files_of_cluster_def keeps_listed_def)

lemma files_of_path_listed:
  "files_of_path ev st w disk path = Some (Inr fs) \<Longrightarrow> fat_bs st = Some bs
     \<Longrightarrow> \<forall>f \<in> set fs. listed (sectors_per_cluster bs) f"
  by (auto simp: files_of_path_def Let_def split: option.splits sum.splits if_splits
           dest: files_of_cluster_listed)


lemma find_listed: "find P xs = Some f \<Longrightarrow> f \<in> set xs"
  by (auto simp: find_Some_iff)

text \<open>
  C10.  Claim: if the name passed to \<open>read_file\<close> matches a directory entry in the parent
  listing, \<open>read_file\<close> does not fail or return empty: it takes the reported size of the
  directory (\<open>sectors_per_cluster * 512\<close> bytes) as the file size and returns that many raw
  bytes read from the cluster chain of the directory.
  When the read of the cluster of the directory fails the loop of \<open>read_file\<close> breaks with
  nothing copied: on the volume whose root lists the directory \<open>DOCS\<close> at cluster 3 and whose
  sector 7 (cluster 3) cannot be read, \<open>ls([])\<close> reports the directory \<open>DOCS\<close> and
  \<open>read_file([], DOCS)\<close> returns the empty string.
\<close>

theorem C10_counterexample:
  "(case ls (zero_env False) initial_state (one_volume bad_dir_volume) disk0 part0 [] of
      Some (Inr q) \<Rightarrow> map file_name (fst q) = [name_DOCS] \<and> map directory (fst q) = [True]
    | Some (Inl e) \<Rightarrow> False
    | None \<Rightarrow> False)
   \<and> (case read_file (zero_env False) initial_state (one_volume bad_dir_volume) disk0 part0 []
             name_DOCS of
      Some (Inr r) \<Rightarrow> fst r = []
    | Some (Inl e) \<Rightarrow> False
    | None \<Rightarrow> False)"
  by code_simp

text \<open>
  C10 as amended: if the cache loads, the listing of the parent is returned, the first record of
  that name in the listing is a directory, and the read of the first cluster of that directory
  succeeds, then \<open>read_file\<close> returns exactly the bytes of that cluster, which are
  \<open>sectors_per_cluster * 512\<close> bytes, the size reported for the directory, and not empty.
\<close>

theorem C10_directory_first_cluster:
  assumes cache: "cache_disk_partition st w disk part = Inr (True, st1)"
    and listing: "files_of_path ev st1 w disk path = Some (Inr all_files)"
    and found: "find (\<lambda>f. file_name f = fname) all_files = Some f"
    and dir: "directory f"
    and bs: "fat_bs st1 = Some bs"
    and lba: "cluster_lba st1 (ucast (location f)) = Inr lba"
    and rd: "read_sectors w disk lba (unat (sectors_per_cluster bs)) = Some cluster"
  shows "read_file ev st w disk part path fname = Some (Inr (cluster, st1))
         \<and> size_bytes f = unat (sectors_per_cluster bs) * 512
         \<and> length cluster = size_bytes f
         \<and> cluster \<noteq> []"
proof -
  have "listed (sectors_per_cluster bs) f"
    using files_of_path_listed [OF listing bs] find_listed [OF found] by blast
  with dir have nz: "sectors_per_cluster bs \<noteq> 0"
    and sz: "size_bytes f = unat (sectors_per_cluster bs) * 512"
    by (simp_all add: listed_def)
  have len: "length cluster = size_bytes f"
    using length_read_sectors [OF rd] sz by simp
  have pos: "0 < size_bytes f"
    using nz sz by (simp add: unat_gt_0)
  have stop: "read_file_loop st1 w disk (location f) (size_bytes f) cluster = Some (Inr cluster)"
    by (subst read_file_loop.simps) (simp add: len)
  have "read_file_loop st1 w disk (location f) (size_bytes f) [] = Some (Inr cluster)"
    by (subst read_file_loop.simps) (simp add: pos bs lba rd len stop)
  then have "read_file ev st w disk part path fname = Some (Inr (cluster, st1))"
    using pos by (simp add: read_file_def cache listing found)
  then show ?thesis using sz len pos by auto
qed

theorem C10_directory_first_cluster_witness:
  "(case read_file (zero_env False) initial_state (one_volume dir_volume) disk0 part0 [] name_DOCS of
      Some (Inr r) \<Rightarrow> fst r = replicate 512 0x2E \<and> snd r = loaded_state
    | Some (Inl e) \<Rightarrow> False
    | None \<Rightarrow> False)
   \<and> read_sectors (one_volume dir_volume) disk0 7 1 = Some (replicate 512 0x2E)"
proof -
  let ?f = "\<lparr>file_name = name_DOCS, hidden = False, system = False, directory = True,
             size_bytes = 512, location = 3\<rparr>"
  have cache: "cache_disk_partition initial_state (one_volume dir_volume) disk0 part0
                 = Inr (True, loaded_state)"
    by code_simp
  have listing: "files_of_path (zero_env False) loaded_state (one_volume dir_volume) disk0 []
                   = Some (Inr [?f])"
    by code_simp
  have found: "find (\<lambda>f. file_name f = name_DOCS) [?f] = Some ?f"
    by simp
  have dir: "directory ?f"
    by simp
  have bs: "fat_bs loaded_state = Some (image_boot 1)"
    by (simp add: loaded_state_def)
  have lba: "cluster_lba loaded_state (ucast (location ?f)) = Inr 7"
    by code_simp
  have one: "unat (sectors_per_cluster (image_boot 1)) = 1"
    by code_simp
  have rd: "read_sectors (one_volume dir_volume) disk0 7 (unat (sectors_per_cluster (image_boot 1)))
              = Some (replicate 512 0x2E)"
    unfolding one by code_simp
  from C10_directory_first_cluster [OF cache listing found dir bs lba rd] rd one
  show ?thesis by simp
qed

section \<open>The claims settled by evaluation on the images\<close>

text \<open>
  C2.  Claim: if the sector read of either the boot sector or the information sector fails
  during a cache reload, the cache is left empty and the operation aborts with its generic
  failure value (0, empty, or false), without any further fault.
  On a disk whose boot sector cannot be read, \<open>cache_bs\<close> leaves \<open>fat_bs\<close> null and
  \<open>cache_is\<close> then reads \<open>fat_bs->fs_information_sector\<close>: the reload and every operation
  end in a null pointer dereference instead of the failure value.
\<close>

theorem C2_boot_sector_failure_faults:
  "cache_disk_partition initial_state (one_volume dead_volume) disk0 part0 = Inl NullDereference
   \<and> free_size initial_state (one_volume dead_volume) disk0 part0 = Inl NullDereference
   \<and> ls (zero_env True) initial_state (one_volume dead_volume) disk0 part0 [] = Some (Inl NullDereference)
   \<and> read_file (zero_env True) initial_state (one_volume dead_volume) disk0 part0 [] name_a
        = Some (Inl NullDereference)
   \<and> (case mkdir (zero_env True) initial_state (one_volume dead_volume) disk0 part0 [] name_docs of
         Some (Inl f) \<Rightarrow> f = NullDereference | Some (Inr r) \<Rightarrow> False | None \<Rightarrow> False)
   \<and> (case touch (zero_env True) initial_state (one_volume dead_volume) disk0 part0 [] name_a of
         Some (Inl f) \<Rightarrow> f = NullDereference | Some (Inr r) \<Rightarrow> False | None \<Rightarrow> False)"
  by code_simp

text \<open>
  C9.  Claim: after a cache load fails for a (disk, partition) pair, the cached identifiers are
  nevertheless updated to that pair, so that every later operation on the same pair returns
  its failure value without reading the two sectors again.
  When the load fails at the boot sector the reload never reaches the two assignments
  \<open>cached_disk = disk.uuid\<close> and \<open>cached_partition = partition.uuid\<close>: it ends in the null
  pointer dereference of \<open>cache_is\<close> (the defect of C2), with no state and no failure value.
\<close>

theorem C9_failed_load_never_updates_identifiers:
  "(case cache_disk_partition initial_state (one_volume dead_volume) disk0 part0 of
      Inl f \<Rightarrow> f = NullDereference
    | Inr r \<Rightarrow> False)
   \<and> cached_disk initial_state \<noteq> dd_uuid disk0"
  by code_simp

text \<open>
  C1.  Claim: for every cluster \<open>c \<ge> 2\<close>, after \<open>write_fat_entry(c, v)\<close> a read of \<open>c\<close>
  returns \<open>v & 0x0FFFFFFF\<close> and the other entries are unchanged; both address the FAT sector
  \<open>fat_begin + (c * 4) / 512\<close> at index \<open>c % 128\<close>.
  The code indexes the 128-entry sector buffer with \<open>cluster % 512\<close>.  On the empty volume
  (four FAT sectors, so that cluster 128 exists and is free) the write and the read of cluster 128
  both index the buffer at 128, outside the array.
\<close>

theorem C1_cluster_128_indexes_outside_the_sector:
  "(case cache_disk_partition initial_state (one_volume empty_volume) disk0 part0 of
      Inl f \<Rightarrow> False
    | Inr r \<Rightarrow>
        fst r
        \<and> spec_fat_entry (one_volume empty_volume) disk0 (fat_begin (snd r) (image_boot 1)) 128 = Some 0
        \<and> (case write_fat_value (snd r) (one_volume empty_volume) disk0 128 5 of
              Inl f \<Rightarrow> f = OutOfBounds | Inr r' \<Rightarrow> False)
        \<and> read_fat_value (snd r) (one_volume empty_volume) disk0 128 = Inl OutOfBounds)"
  by code_simp

text \<open>
  C3.  Claim: for every valid image (any \<open>sectors_per_cluster\<close>), \<open>find_free_cluster\<close> scans
  the FAT linearly from its first sector and returns the smallest cluster \<open>\<ge> 2\<close> whose 28-bit
  FAT value is 0.
  The code reads sector \<open>j\<close> of the scan at \<open>fat_begin + j * sectors_per_cluster\<close>.  With two
  sectors per cluster the second step reads the third FAT sector and reports its first entry
  as cluster 128: the result is 128, whose FAT value is \<open>0x0FFFFFF8\<close>, not 0, while cluster 129
  is free.
\<close>

theorem C3_stride_returns_allocated_cluster:
  "(case cache_disk_partition initial_state (one_volume two_sector_volume) disk0 part0 of
      Inl f \<Rightarrow> False
    | Inr r \<Rightarrow>
        fst r \<and> find_free_cluster (snd r) (one_volume two_sector_volume) disk0 = Inr 128
        \<and> spec_fat_entry (one_volume two_sector_volume) disk0 (fat_begin (snd r) (image_boot 2)) 128
             = Some 0x0FFFFFF8
        \<and> spec_fat_entry (one_volume two_sector_volume) disk0 (fat_begin (snd r) (image_boot 2)) 129
             = Some 0)"
  by code_simp

text \<open>
  C6.  Claim: when \<open>find_free_cluster\<close> returns 0 or \<open>find_free_entry\<close> cannot place the run
  of entries, \<open>mkdir\<close> and \<open>touch\<close> abort and return false, without a crash.
  Neither operation tests the pointer \<open>find_free_entry\<close> returns.  On a volume whose root
  directory has no free slot the pointer is null, and \<open>init_directory_entry\<close> or
  \<open>init_file_entry\<close> writes through it.
\<close>

theorem C6_full_directory_null_dereference:
  "(case mkdir (zero_env False) initial_state (one_volume full_root_volume) disk0 part0 [] name_docs of
      Some (Inl f) \<Rightarrow> f = NullDereference | Some (Inr r) \<Rightarrow> False | None \<Rightarrow> False)
   \<and> (case touch (zero_env False) initial_state (one_volume full_root_volume) disk0 part0 [] name_docs of
      Some (Inl f) \<Rightarrow> f = NullDereference | Some (Inr r) \<Rightarrow> False | None \<Rightarrow> False)"
  by code_simp

text \<open>
  C7.  Claim: after a successful \<open>mkdir(p, n)\<close>, \<open>ls(p ++ [n])\<close> returns exactly two records,
  \<open>.\<close> and \<open>..\<close>, located at the new cluster and at the cluster of \<open>p\<close>.
  For a name of 12 bytes \<open>init_entry\<close> writes \<open>(12 - 1) / 11 + 1 = 2\<close> long entries, the
  second holding padding only; \<open>files\<close> sets the length of the long name to the start of the
  last long entry it decodes, 13 here, so the name read back has 13 bytes, the last of them a
  byte of \<open>long_name_buffer\<close> that was never written, and is not the name given to
  \<open>mkdir\<close>.  On the empty volume \<open>mkdir([], abcdefghijkl)\<close> returns true, the root then
  lists one directory, of the 13-byte name \<open>abcdefghijklA\<close> at cluster 3, and
  \<open>ls([abcdefghijkl])\<close> returns no record, whether \<open>char\<close> is signed or not.
\<close>

theorem C7_directory_of_12_byte_name_not_listed:
  "(case mkdir (letter_env False) initial_state (one_volume empty_volume) disk0 part0 [] name_12 of
      Some (Inr r) \<Rightarrow>
        fst r \<and>
        (case ls (letter_env False) (fst (snd r)) (snd (snd r)) disk0 part0 [name_12] of
           Some (Inr q) \<Rightarrow> fst q = [] | Some (Inl f) \<Rightarrow> False | None \<Rightarrow> False)
        \<and> (case ls (letter_env False) (fst (snd r)) (snd (snd r)) disk0 part0 [] of
           Some (Inr q) \<Rightarrow> map file_name (fst q) = [name_12 @ [0x41]] \<and> map directory (fst q) = [True]
               \<and> map location (fst q) = [3]
           | Some (Inl f) \<Rightarrow> False | None \<Rightarrow> False)
    | Some (Inl f) \<Rightarrow> False
    | None \<Rightarrow> False)
   \<and> (case mkdir (letter_env True) initial_state (one_volume empty_volume) disk0 part0 [] name_12 of
      Some (Inr r) \<Rightarrow>
        fst r \<and>
        (case ls (letter_env True) (fst (snd r)) (snd (snd r)) disk0 part0 [name_12] of
           Some (Inr q) \<Rightarrow> fst q = [] | Some (Inl f) \<Rightarrow> False | None \<Rightarrow> False)
    | Some (Inl f) \<Rightarrow> False
    | None \<Rightarrow> False)"
  by code_simp


end
